(* ===== verification/Prelude.thy ===== *)
theory Prelude
  imports Main "HOL-Library.Sublist" "HOL-Library.Char_ord" "HOL-Library.List_Lexorder"
begin

text \<open>
  The vocabulary every other theory shares: Python's \<open>bytes\<close> and \<open>str\<close>, and the string methods
  the scripts under \<^verbatim>\<open>src/athanor/\<close> call.

  A \<open>bytes\<close> value is a \<open>string\<close> (a list of 8-bit \<open>char\<close>s), byte for byte. A \<open>str\<close> value is the
  \<open>string\<close> of its UTF-8 encoding, so equality, concatenation, order by code point, prefix, suffix
  and substring tests mean the same thing on both sides for every text. The methods that look at
  single characters (\<open>strip\<close>, \<open>split()\<close>, \<open>splitlines\<close>, \<open>lower\<close>) are written for the ASCII
  characters Python gives a meaning to; beyond ASCII they leave a character alone.
\<close>

section \<open>Collections of hints\<close>

named_theorems text_simps \<open>unfolding rules for the string methods\<close>
named_theorems gate_simps \<open>unfolding rules for the exit-code logic of the gates\<close>

type_synonym bytes = string
type_synonym str = string

abbreviation NL :: char where "NL \<equiv> CHR 0x0A"
abbreviation CR :: char where "CR \<equiv> CHR 0x0D"
abbreviation TAB :: char where "TAB \<equiv> CHR 0x09"
abbreviation NUL :: char where "NUL \<equiv> CHR 0x00"
abbreviation DQUOTE :: char where "DQUOTE \<equiv> CHR 0x22"
abbreviation SQUOTE :: char where "SQUOTE \<equiv> CHR 0x27"
abbreviation BACKSLASH :: char where "BACKSLASH \<equiv> CHR 0x5C"

text \<open>What a script writes: one line on standard output or standard error.\<close>

datatype line_out = Out string | Err string

section \<open>Character classes\<close>

definition in_range :: "char \<Rightarrow> char \<Rightarrow> char \<Rightarrow> bool" where
  "in_range lo hi c \<longleftrightarrow> lo \<le> c \<and> c \<le> hi"

definition is_digit :: "char \<Rightarrow> bool" where
  "is_digit c \<longleftrightarrow> in_range CHR ''0'' CHR ''9'' c"

definition is_upper :: "char \<Rightarrow> bool" where
  "is_upper c \<longleftrightarrow> in_range CHR ''A'' CHR ''Z'' c"

definition is_lower :: "char \<Rightarrow> bool" where
  "is_lower c \<longleftrightarrow> in_range CHR ''a'' CHR ''z'' c"

definition is_hex :: "char \<Rightarrow> bool" where
  "is_hex c \<longleftrightarrow> is_digit c \<or> in_range CHR ''a'' CHR ''f'' c \<or> in_range CHR ''A'' CHR ''F'' c"

text \<open>\<open>\w\<close> of the regular expressions, and \<open>str.isspace\<close>, on ASCII.\<close>

definition is_word :: "char \<Rightarrow> bool" where
  "is_word c \<longleftrightarrow> is_digit c \<or> is_upper c \<or> is_lower c \<or> c = CHR ''_''"

definition is_space :: "char \<Rightarrow> bool" where
  "is_space c \<longleftrightarrow> in_range CHR 0x09 CHR 0x0D c \<or> in_range CHR 0x1C CHR 0x20 c"

text \<open>The characters at which \<open>str.splitlines\<close> ends a line.\<close>

definition is_linebreak :: "char \<Rightarrow> bool" where
  "is_linebreak c \<longleftrightarrow> in_range CHR 0x0A CHR 0x0D c \<or> in_range CHR 0x1C CHR 0x1E c"

definition to_lower :: "char \<Rightarrow> char" where
  "to_lower c = (if is_upper c then char_of (of_char c + 32 :: nat) else c)"

definition lower :: "str \<Rightarrow> str" where
  "lower s = map to_lower s"

lemmas char_class_defs =
  in_range_def is_digit_def is_upper_def is_lower_def is_hex_def is_word_def is_space_def
  is_linebreak_def less_eq_char_def

section \<open>Stripping and splitting\<close>

definition lstrip :: "str \<Rightarrow> str" where
  "lstrip s = dropWhile is_space s"

definition rstrip :: "str \<Rightarrow> str" where
  "rstrip s = rev (dropWhile is_space (rev s))"

definition strip :: "str \<Rightarrow> str" where
  "strip s = rstrip (lstrip s)"

text \<open>\<open>s.split(maxsplit=1)\<close> unpacked into two names; \<open>None\<close> is the ValueError of a short list.\<close>

definition split_max1 :: "str \<Rightarrow> (str \<times> str) option" where
  "split_max1 s =
     (let t = lstrip s;
          word = takeWhile (\<lambda>c. \<not> is_space c) t;
          rest = lstrip (dropWhile (\<lambda>c. \<not> is_space c) t)
      in if word = [] \<or> rest = [] then None else Some (word, rest))"

text \<open>\<open>s.split()\<close>.\<close>

function split_ws :: "str \<Rightarrow> str list" where
  "split_ws s =
     (let t = lstrip s in
      if t = [] then []
      else takeWhile (\<lambda>c. \<not> is_space c) t # split_ws (dropWhile (\<lambda>c. \<not> is_space c) t))"
  by pat_completeness auto

lemma length_dropWhile_Suc:
  "xs \<noteq> [] \<Longrightarrow> P (hd xs) \<Longrightarrow> length (dropWhile P xs) < length xs"
  by (cases xs) (auto simp: le_imp_less_Suc length_dropWhile_le)

lemma lstrip_hd: "lstrip s \<noteq> [] \<Longrightarrow> \<not> is_space (hd (lstrip s))"
  unfolding lstrip_def by (rule hd_dropWhile)

termination split_ws
proof (relation "measure length", simp, clarsimp)
  fix s assume "lstrip s \<noteq> []"
  then have "length (dropWhile (\<lambda>c. \<not> is_space c) (lstrip s)) < length (lstrip s)"
    using lstrip_hd by (intro length_dropWhile_Suc) auto
  also have "\<dots> \<le> length s" by (simp add: lstrip_def length_dropWhile_le)
  finally show "length (dropWhile (\<lambda>c. \<not> is_space c) (lstrip s)) < length s" .
qed

declare split_ws.simps [simp del]

text \<open>\<open>s.splitlines()\<close>: a carriage return followed by a newline is one line end.\<close>

fun splitlines_acc :: "str \<Rightarrow> str \<Rightarrow> str list" where
  "splitlines_acc cur [] = (if cur = [] then [] else [rev cur])"
| "splitlines_acc cur [c] =
     (if is_linebreak c then [rev cur] else [rev (c # cur)])"
| "splitlines_acc cur (c # d # cs) =
     (if c = CR \<and> d = NL then rev cur # splitlines_acc [] cs
      else if is_linebreak c then rev cur # splitlines_acc [] (d # cs)
      else splitlines_acc (c # cur) (d # cs))"

definition splitlines :: "str \<Rightarrow> str list" where
  "splitlines s = splitlines_acc [] s"

text \<open>\<open>s.split(sep)\<close> for a one-character separator: empty pieces are kept.\<close>

fun split_on :: "char \<Rightarrow> string \<Rightarrow> string list" where
  "split_on sep [] = [[]]"
| "split_on sep (c # cs) =
     (if c = sep then [] # split_on sep cs
      else (case split_on sep cs of [] \<Rightarrow> [[c]] | w # ws \<Rightarrow> (c # w) # ws))"

text \<open>\<open>s.partition(sep)\<close> for a one-character separator.\<close>

definition partition_on :: "char \<Rightarrow> string \<Rightarrow> string \<times> string" where
  "partition_on sep s = (takeWhile (\<lambda>c. c \<noteq> sep) s, drop 1 (dropWhile (\<lambda>c. c \<noteq> sep) s))"

text \<open>\<open>sep.join(parts)\<close>.\<close>

fun join :: "string \<Rightarrow> string list \<Rightarrow> string" where
  "join sep [] = []"
| "join sep [x] = x"
| "join sep (x # y # ys) = x @ sep @ join sep (y # ys)"

section \<open>Prefixes, substrings, replacement\<close>

definition startswith :: "string \<Rightarrow> string \<Rightarrow> bool" where
  "startswith s p \<longleftrightarrow> prefix p s"

definition endswith :: "string \<Rightarrow> string \<Rightarrow> bool" where
  "endswith s p \<longleftrightarrow> suffix p s"

text \<open>\<open>needle in hay\<close>.\<close>

definition contains :: "string \<Rightarrow> string \<Rightarrow> bool" where
  "contains hay needle \<longleftrightarrow> sublist needle hay"

definition removeprefix :: "string \<Rightarrow> string \<Rightarrow> string" where
  "removeprefix s p = (if prefix p s then drop (length p) s else s)"

text \<open>\<open>s.find(p)\<close>: the least offset where \<open>p\<close> starts; \<open>None\<close> for \<open>-1\<close>.\<close>

fun find_at :: "string \<Rightarrow> string \<Rightarrow> nat option" where
  "find_at [] p = (if p = [] then Some 0 else None)"
| "find_at (c # cs) p =
     (if prefix p (c # cs) then Some 0 else map_option Suc (find_at cs p))"

text \<open>
  The offsets \<open>re.finditer(re.escape(p), s)\<close> yields: matches do not overlap. A match of an empty
  pattern would not advance; the scripts only search for non-empty literals.
\<close>

function occurrences_from :: "nat \<Rightarrow> string \<Rightarrow> string \<Rightarrow> nat list" where
  "occurrences_from k p s =
     (if s = [] \<or> p = [] then []
      else if prefix p s then k # occurrences_from (k + length p) p (drop (length p) s)
      else occurrences_from (Suc k) p (tl s))"
  by pat_completeness auto
termination
  by (relation "measure (\<lambda>(k, p, s). length s)") (auto simp: diff_less_mono)

declare occurrences_from.simps [simp del]

definition occurrences :: "string \<Rightarrow> string \<Rightarrow> nat list" where
  "occurrences p s = occurrences_from 0 p s"

text \<open>\<open>s.count(p)\<close> and \<open>s.replace(p, q, 1)\<close>.\<close>

definition count_sub :: "string \<Rightarrow> string \<Rightarrow> nat" where
  "count_sub s p = length (occurrences p s)"

fun replace1 :: "string \<Rightarrow> string \<Rightarrow> string \<Rightarrow> string" where
  "replace1 [] p q = (if p = [] then q else [])"
| "replace1 (c # cs) p q =
     (if prefix p (c # cs) then q @ drop (length p) (c # cs) else c # replace1 cs p q)"

text \<open>\<open>s.replace(p, q)\<close> for a non-empty \<open>p\<close>.\<close>

function replace_all :: "string \<Rightarrow> string \<Rightarrow> string \<Rightarrow> string" where
  "replace_all s p q =
     (if s = [] \<or> p = [] then s
      else if prefix p s then q @ replace_all (drop (length p) s) p q
      else hd s # replace_all (tl s) p q)"
  by pat_completeness auto
termination
  by (relation "measure (\<lambda>(s, p, q). length s)") (auto simp: diff_less_mono)

declare replace_all.simps [simp del]

text \<open>Lines, each ended by a newline.\<close>

definition unlines :: "string list \<Rightarrow> string" where
  "unlines ls = concat (map (\<lambda>l. l @ [NL]) ls)"

section \<open>Numbers as text\<close>

definition digit_char :: "nat \<Rightarrow> char" where
  "digit_char d = char_of (48 + d)"

fun dec :: "nat \<Rightarrow> string" where
  "dec n = (if n < 10 then [digit_char n] else dec (n div 10) @ [digit_char (n mod 10)])"

declare dec.simps [simp del]

definition dec_int :: "int \<Rightarrow> string" where
  "dec_int i = (if i < 0 then ''-'' @ dec (nat (- i)) else dec (nat i))"

section \<open>Lines with their numbers\<close>

text \<open>\<open>enumerate(xs, start)\<close>.\<close>

fun enumerate_from :: "nat \<Rightarrow> 'a list \<Rightarrow> (nat \<times> 'a) list" where
  "enumerate_from n [] = []"
| "enumerate_from n (x # xs) = (n, x) # enumerate_from (Suc n) xs"

text \<open>\<open>sorted(set(xs))\<close>.\<close>

definition sorted_set :: "'a::linorder list \<Rightarrow> 'a list" where
  "sorted_set xs = sort (remdups xs)"

section \<open>Lemmas\<close>

subsection \<open>Lists\<close>

lemma sorted_set_set [simp]: "set (sorted_set xs) = set xs"
  by (simp add: sorted_set_def)

lemma sorted_set_sorted [simp]: "sorted (sorted_set xs)"
  by (simp add: sorted_set_def)

lemma sorted_set_distinct [simp]: "distinct (sorted_set xs)"
  by (simp add: sorted_set_def)

lemma sorted_set_Nil_iff [simp]: "sorted_set xs = [] \<longleftrightarrow> xs = []"
  by (metis set_empty sorted_set_set)

lemma sorted_set_eqI: "set xs = set ys \<Longrightarrow> sorted_set xs = sorted_set ys"
  by (rule sorted_distinct_set_unique) auto

lemma sorted_set_idem: "sorted xs \<Longrightarrow> distinct xs \<Longrightarrow> sorted_set xs = xs"
  by (simp add: sorted_set_def distinct_remdups_id sorted_sort_id)

lemma set_enumerate_from:
  "(i, x) \<in> set (enumerate_from n xs) \<longleftrightarrow> n \<le> i \<and> i < n + length xs \<and> xs ! (i - n) = x"
proof (induction xs arbitrary: n)
  case (Cons y ys)
  show ?case
  proof (cases "n < i")
    case True
    then have "i - n = Suc (i - Suc n)" by simp
    with True Cons.IH[of "Suc n"] show ?thesis by (auto simp: less_eq_Suc_le)
  qed (use Cons.IH[of "Suc n"] in auto)
qed simp

lemma map_snd_enumerate_from [simp]: "map snd (enumerate_from n xs) = xs"
  by (induction xs arbitrary: n) auto

lemma length_enumerate_from [simp]: "length (enumerate_from n xs) = length xs"
  by (induction xs arbitrary: n) auto

lemma concat_map_Nil_iff: "concat (map f xs) = [] \<longleftrightarrow> (\<forall>x\<in>set xs. f x = [])"
  by (induction xs) auto

subsection \<open>Joining and splitting\<close>

lemma split_on_not_Nil [simp]: "split_on sep s \<noteq> []"
  by (induction s) (auto split: list.splits)

lemma split_on_no_sep: "sep \<notin> set s \<Longrightarrow> split_on sep s = [s]"
  by (induction s) auto

lemma split_on_append:
  "sep \<notin> set w \<Longrightarrow> split_on sep (w @ sep # rest) = w # split_on sep rest"
  by (induction w) auto

lemma split_on_sep: "split_on sep (s @ sep # t) = split_on sep s @ split_on sep t"
  by (induction s) (auto split: list.split)

text \<open>Splitting a joined list gives the pieces back, and joining split pieces the text.\<close>

lemma split_on_join:
  assumes "xs \<noteq> []" and "\<And>x. x \<in> set xs \<Longrightarrow> sep \<notin> set x"
  shows "split_on sep (join [sep] xs) = xs"
  using assms
proof (induction xs rule: induct_list012)
  case (3 x y zs)
  then show ?case by (simp add: split_on_append)
qed (auto simp: split_on_no_sep)

lemma join_split_on: "join [sep] (split_on sep s) = s"
proof (induction s)
  case (Cons c cs)
  obtain w ws where w: "split_on sep cs = w # ws"
    by (cases "split_on sep cs") auto
  with Cons show ?case by (cases ws) auto
qed simp

lemma split_on_pieces: "x \<in> set (split_on sep s) \<Longrightarrow> sep \<notin> set x"
  by (induction s arbitrary: x) (auto split: list.splits if_splits)

lemma join_inj:
  assumes "join [sep] xs = join [sep] ys" "xs \<noteq> []" "ys \<noteq> []"
    "\<And>x. x \<in> set xs \<Longrightarrow> sep \<notin> set x" "\<And>y. y \<in> set ys \<Longrightarrow> sep \<notin> set y"
  shows "xs = ys"
  using assms split_on_join by metis

lemma join_append:
  "xs \<noteq> [] \<Longrightarrow> ys \<noteq> [] \<Longrightarrow> join sep (xs @ ys) = join sep xs @ sep @ join sep ys"
proof (induction xs rule: induct_list012)
  case (2 x)
  then show ?case by (cases ys) auto
next
  case (3 x y zs)
  then show ?case by simp
qed simp

lemma set_join: "c \<in> set (join sep xs) \<Longrightarrow> c \<in> set sep \<or> (\<exists>x\<in>set xs. c \<in> set x)"
  by (induction xs rule: induct_list012) auto

lemma in_map_filterI: "x \<in> set xs \<Longrightarrow> f x = Some y \<Longrightarrow> y \<in> set (List.map_filter f xs)"
  by (induction xs) (auto simp: map_filter_simps split: option.splits)

lemma takeWhile_until:
  "\<forall>c\<in>set h. c \<noteq> x \<Longrightarrow> takeWhile (\<lambda>c. c \<noteq> x) (h @ x # r) = h"
  "\<forall>c\<in>set h. c \<noteq> x \<Longrightarrow> dropWhile (\<lambda>c. c \<noteq> x) (h @ x # r) = x # r"
  by (induction h) auto

lemma split_on_terminated:
  "\<forall>r\<in>set rs. sep \<notin> set r \<Longrightarrow> split_on sep (concat (map (\<lambda>r. r @ [sep]) rs)) = rs @ [[]]"
  by (induction rs) (auto simp: split_on_append)

lemma split_ws_space: "is_space c \<Longrightarrow> split_ws (c # s) = split_ws s"
  by (subst (1 2) split_ws.simps) (simp add: lstrip_def)

lemma split_ws_Nil [simp]: "split_ws [] = []"
  by (simp add: split_ws.simps lstrip_def)

lemma split_ws_word:
  assumes "w \<noteq> []" "\<forall>c\<in>set w. \<not> is_space c" "s = [] \<or> is_space (hd s)"
  shows "split_ws (w @ s) = w # split_ws s"
proof -
  have l: "lstrip (w @ s) = w @ s" using assms(1,2) by (cases w) (auto simp: lstrip_def)
  have t: "takeWhile (\<lambda>c. \<not> is_space c) (w @ s) = w" "dropWhile (\<lambda>c. \<not> is_space c) (w @ s) = s"
    using assms(2,3) by (cases s; simp add: takeWhile_append2 dropWhile_append2)+
  show ?thesis using assms(1) by (subst split_ws.simps) (simp add: l t Let_def)
qed

subsection \<open>Substrings\<close>

lemma contains_iff: "contains hay needle \<longleftrightarrow> (\<exists>a b. hay = a @ needle @ b)"
  by (simp add: contains_def sublist_def)

lemma contains_append [intro]: "contains (a @ n @ b) n"
  by (auto simp: contains_iff)

lemma contains_refl [simp, intro]: "contains s s"
  by (simp add: contains_def)

lemma contains_mono: "contains s n \<Longrightarrow> contains (a @ s @ b) n"
  unfolding contains_iff by (metis append.assoc)

lemma startswith_contains: "startswith s p \<Longrightarrow> contains s p"
  by (simp add: startswith_def contains_def)

lemma removeprefix_id: "\<not> prefix p s \<Longrightarrow> removeprefix s p = s"
  by (simp add: removeprefix_def)

lemma removeprefix_append [simp]: "removeprefix (p @ s) p = s"
  by (simp add: removeprefix_def)

lemma find_at_Some:
  "find_at s p = Some k \<Longrightarrow> k \<le> length s \<and> prefix p (drop k s) \<and> (\<forall>j<k. \<not> prefix p (drop j s))"
proof (induction s arbitrary: k)
  case (Cons c cs)
  show ?case
  proof (cases "prefix p (c # cs)")
    case False
    with Cons.prems obtain k' where k': "k = Suc k'" "find_at cs p = Some k'" by auto
    with Cons.IH have IH: "k' \<le> length cs \<and> prefix p (drop k' cs) \<and> (\<forall>j<k'. \<not> prefix p (drop j cs))"
      by blast
    have "\<not> prefix p (drop j (c # cs))" if "j < k" for j
      using that False IH k' by (cases j) auto
    with IH k' show ?thesis by auto
  qed (use Cons.prems in auto)
qed (auto split: if_splits)

lemma find_at_None: "find_at s p = None \<longleftrightarrow> \<not> contains s p"
  by (induction s) (auto simp: contains_def sublist_Cons_right)

lemma replace1_first:
  "\<not> contains s p \<Longrightarrow> replace1 s p q = s"
  by (induction s) (auto simp: contains_def sublist_Cons_right)

lemma replace1_split:
  assumes "find_at s p = Some k"
  shows "replace1 s p q = take k s @ q @ drop (k + length p) s"
  using assms
proof (induction s arbitrary: k)
  case (Cons c cs)
  then show ?case by (cases "prefix p (c # cs)") auto
qed (auto split: if_splits)

lemma occurrences_from_iff:
  "k \<in> set (occurrences_from n p s) \<Longrightarrow> n \<le> k \<and> k - n < length s \<and> prefix p (drop (k - n) s)"
proof (induction n p s arbitrary: k rule: occurrences_from.induct)
  case (1 n p s)
  show ?case
  proof (cases "s = [] \<or> p = []")
    case True
    with "1.prems" show ?thesis by (simp add: occurrences_from.simps)
  next
    case ne: False
    show ?thesis
    proof (cases "prefix p s")
      case True
      with ne "1.prems" consider "k = n" | "k \<in> set (occurrences_from (n + length p) p (drop (length p) s))"
        by (auto simp: occurrences_from.simps[of n p s])
      then show ?thesis
      proof cases
        case 1
        with True ne show ?thesis by simp
      next
        case 2
        with "1.IH"(1)[OF ne True] have
          h: "n + length p \<le> k" "k - (n + length p) < length (drop (length p) s)"
             "prefix p (drop (k - (n + length p)) (drop (length p) s))" by blast+
        from h(1) have "k - (n + length p) + length p = k - n" by simp
        with h show ?thesis by simp
      qed
    next
      case False
      with ne "1.prems" have "k \<in> set (occurrences_from (Suc n) p (tl s))"
        by (simp add: occurrences_from.simps[of n p s])
      with "1.IH"(2)[OF ne False] have h: "Suc n \<le> k" "k - Suc n < length (tl s)" "prefix p (drop (k - Suc n) (tl s))"
        by auto
      from h(1) have eq: "k - n = Suc (k - Suc n)" by simp
      show ?thesis using h ne unfolding eq by (cases s) auto
    qed
  qed
qed

lemma occurrences_sound:
  "k \<in> set (occurrences p s) \<Longrightarrow> k < length s \<and> prefix p (drop k s)"
  using occurrences_from_iff[of k 0 p s] by (simp add: occurrences_def)

lemma occurrences_from_complete:
  "p \<noteq> [] \<Longrightarrow> (occurrences_from n p s = []) = (\<not> contains s p)"
proof (induction s arbitrary: n)
  case Nil
  then show ?case by (simp add: occurrences_from.simps contains_def)
next
  case (Cons c cs)
  then show ?case
    by (subst occurrences_from.simps) (simp add: contains_def sublist_Cons_right)
qed

lemma occurrences_Nil_iff: "p \<noteq> [] \<Longrightarrow> occurrences p s = [] \<longleftrightarrow> \<not> contains s p"
  by (simp add: occurrences_def occurrences_from_complete)

subsection \<open>Decimal text\<close>

lemma dec_not_Nil [simp]: "dec n \<noteq> []"
  by (subst dec.simps) simp

lemma of_digit_char: "d < 10 \<Longrightarrow> of_char (digit_char d) = (48 + d :: nat)"
  by (simp add: digit_char_def)

lemma digit_char_inj: "a < 10 \<Longrightarrow> b < 10 \<Longrightarrow> digit_char a = digit_char b \<Longrightarrow> a = b"
  using of_digit_char by (metis add_left_cancel)

lemma is_digit_digit_char: "d < 10 \<Longrightarrow> is_digit (digit_char d)"
  by (simp add: char_class_defs of_digit_char)

lemma dec_digits: "c \<in> set (dec n) \<Longrightarrow> is_digit c"
proof (induction n rule: dec.induct)
  case (1 n)
  then show ?case
    by (subst (asm) (2) dec.simps) (auto simp: is_digit_digit_char split: if_splits)
qed

lemma dec_inj: "dec m = dec n \<Longrightarrow> m = n"
proof (induction m arbitrary: n rule: dec.induct)
  case (1 m)
  show ?case
  proof (cases "m < 10")
    case True
    with "1.prems" have "dec n = [digit_char m]" by (simp add: dec.simps[of m])
    with True show ?thesis
      by (subst (asm) dec.simps) (auto dest: digit_char_inj split: if_splits)
  next
    case False
    with "1.prems" have eq: "dec n = dec (m div 10) @ [digit_char (m mod 10)]"
      by (simp add: dec.simps[of m])
    have n: "\<not> n < 10"
    proof
      assume "n < 10"
      then have "dec n = [digit_char n]" by (simp add: dec.simps)
      with eq have "dec (m div 10) = []" by simp
      then show False by simp
    qed
    with eq have "dec (m div 10) = dec (n div 10)" "digit_char (m mod 10) = digit_char (n mod 10)"
      by (simp_all add: dec.simps[of n])
    with "1.IH"[OF False] have "m div 10 = n div 10" "m mod 10 = n mod 10"
      by (auto dest: digit_char_inj[rotated 2])
    then show ?thesis by (metis div_mult_mod_eq)
  qed
qed

subsection \<open>Case\<close>

lemma to_lower_idem [simp]: "to_lower (to_lower c) = to_lower c"
proof -
  have "\<not> is_upper (to_lower c)"
    by (auto simp: to_lower_def char_class_defs)
  then show ?thesis by (simp add: to_lower_def)
qed

lemma lower_lower [simp]: "lower (lower s) = lower s"
  by (simp add: lower_def)

subsection \<open>Stripping\<close>

lemma rstrip_idem [simp]: "rstrip (rstrip s) = rstrip s"
  by (simp add: rstrip_def)

lemma lstrip_idem [simp]: "lstrip (lstrip s) = lstrip s"
  by (simp add: lstrip_def)

lemma strip_Nil_iff: "strip s = [] \<longleftrightarrow> (\<forall>c\<in>set s. is_space c)"
proof -
  have "strip s = [] \<longleftrightarrow> (\<forall>c\<in>set (lstrip s). is_space c)"
    by (simp add: strip_def rstrip_def dropWhile_eq_Nil_conv)
  also have "\<dots> \<longleftrightarrow> lstrip s = []"
    using lstrip_hd[of s] by (cases "lstrip s") auto
  also have "\<dots> \<longleftrightarrow> (\<forall>c\<in>set s. is_space c)"
    by (simp add: lstrip_def dropWhile_eq_Nil_conv)
  finally show ?thesis .
qed

lemma strip_no_space: "s = [] \<or> (\<not> is_space (hd s) \<and> \<not> is_space (last s)) \<Longrightarrow> strip s = s"
proof (cases s)
  case (Cons c cs)
  assume h: "s = [] \<or> (\<not> is_space (hd s) \<and> \<not> is_space (last s))"
  with Cons have "lstrip s = s" by (simp add: lstrip_def)
  moreover have "dropWhile is_space (rev s) = rev s"
    using h Cons by (cases "rev s") (auto simp: hd_rev[symmetric] simp del: hd_rev last.simps)
  ultimately show ?thesis by (simp add: strip_def rstrip_def)
qed (simp add: strip_def lstrip_def rstrip_def)

lemma split_max1_parts:
  "split_max1 s = Some (a, b) \<Longrightarrow>
     a \<noteq> [] \<and> b \<noteq> [] \<and> (\<forall>c\<in>set a. \<not> is_space c) \<and> \<not> is_space (hd b)"
  using lstrip_hd[of "dropWhile (\<lambda>c. \<not> is_space c) (lstrip s)"]
  by (auto simp: split_max1_def Let_def dest: set_takeWhileD split: if_splits)

text \<open>A line \<^verbatim>\<open><digest>  <name>\<close> splits into exactly these two fields.\<close>

lemma split_max1_line:
  assumes "a \<noteq> []" "\<forall>c\<in>set a. \<not> is_space c" "b \<noteq> []" "\<not> is_space (hd b)"
  shows "split_max1 (a @ '' '' @ b) = Some (a, b)"
    and "split_max1 (a @ ''  '' @ b) = Some (a, b)"
proof -
  have sp: "is_space CHR '' ''" by (simp add: char_class_defs)
  have l: "lstrip (a @ t) = a @ t" for t
    using assms(1,2) by (cases a) (auto simp: lstrip_def)
  have r: "lstrip b = b" using assms(3,4) by (cases b) (auto simp: lstrip_def)
  have t1: "takeWhile (\<lambda>c. \<not> is_space c) (a @ CHR '' '' # t) = a" for t
    using assms(2) sp by (simp add: takeWhile_append2)
  have t2: "dropWhile (\<lambda>c. \<not> is_space c) (a @ CHR '' '' # t) = CHR '' '' # t" for t
    using assms(2) sp by (simp add: dropWhile_append2)
  have l1: "lstrip (CHR '' '' # t) = lstrip t" for t
    using sp by (simp add: lstrip_def)
  show "split_max1 (a @ '' '' @ b) = Some (a, b)" "split_max1 (a @ ''  '' @ b) = Some (a, b)"
    using assms by (simp_all add: split_max1_def Let_def l t1 t2 l1 r)
qed

subsection \<open>Lines\<close>

definition one_line :: "string \<Rightarrow> bool" where
  "one_line l \<longleftrightarrow> (\<forall>c\<in>set l. \<not> is_linebreak c)"

lemma linebreak_chars: "is_linebreak NL" "is_linebreak CR"
  by (simp_all add: char_class_defs)

lemma one_line_simps [simp]:
  "one_line []"
  "one_line (c # l) \<longleftrightarrow> \<not> is_linebreak c \<and> one_line l"
  "one_line (l @ m) \<longleftrightarrow> one_line l \<and> one_line m"
  "one_line (rev l) \<longleftrightarrow> one_line l"
  by (auto simp: one_line_def)

lemma one_line_drop: "one_line l \<Longrightarrow> one_line (drop n l)"
  by (auto simp: one_line_def dest: in_set_dropD)

lemma unlines_simps [simp]:
  "unlines [] = []"
  "unlines (l # ls) = l @ NL # unlines ls"
  "unlines (ls @ ms) = unlines ls @ unlines ms"
  by (simp_all add: unlines_def)

lemma join_unlines: "ls \<noteq> [] \<Longrightarrow> join [NL] ls @ [NL] = unlines ls"
  by (induction "[NL]" ls rule: join.induct) auto

lemma splitlines_acc_one_line:
  "one_line cur \<Longrightarrow> l \<in> set (splitlines_acc cur s) \<Longrightarrow> one_line l"
  by (induction cur s rule: splitlines_acc.induct) (auto split: if_splits)

lemma splitlines_one_line: "l \<in> set (splitlines s) \<Longrightarrow> one_line l"
  unfolding splitlines_def by (rule splitlines_acc_one_line[of "[]"]) simp_all

lemma splitlines_acc_line:
  "one_line l \<Longrightarrow> splitlines_acc cur (l @ NL # s) = (rev cur @ l) # splitlines_acc [] s"
proof (induction l arbitrary: cur)
  case Nil
  then show ?case by (cases s) (auto simp: linebreak_chars)
next
  case (Cons c l)
  then have "\<not> is_linebreak c" "c \<noteq> CR" using linebreak_chars(2) by auto
  then have "splitlines_acc cur (c # l @ NL # s) = splitlines_acc (c # cur) (l @ NL # s)"
    by (cases l) auto
  with Cons show ?case by simp
qed

lemma splitlines_unlines: "\<forall>l\<in>set ls. one_line l \<Longrightarrow> splitlines (unlines ls) = ls"
  by (induction ls) (auto simp: splitlines_def splitlines_acc_line)

lemma unlines_inj:
  "\<forall>l\<in>set ls. one_line l \<Longrightarrow> \<forall>l\<in>set ms. one_line l \<Longrightarrow> unlines ls = unlines ms \<Longrightarrow> ls = ms"
  by (metis splitlines_unlines)

lemma one_line_replace1: "one_line l \<Longrightarrow> one_line q \<Longrightarrow> one_line (replace1 l p q)"
  by (induction l p q rule: replace1.induct) (auto simp: one_line_drop)

lemma replace_all_append:
  assumes "\<forall>c\<in>set w. c \<noteq> hd p" "p \<noteq> []"
  shows "replace_all (w @ s) p q = w @ replace_all s p q"
  using assms
proof (induction w)
  case (Cons c w)
  then have "\<not> prefix p (c # w @ s)" by (cases p) auto
  with Cons show ?case by (subst replace_all.simps) simp
qed simp

lemma replace_all_here: "p \<noteq> [] \<Longrightarrow> replace_all (p @ s) p q = q @ replace_all s p q"
  by (subst replace_all.simps) simp

lemma replace_all_none: "\<forall>c\<in>set w. c \<noteq> hd p \<Longrightarrow> p \<noteq> [] \<Longrightarrow> replace_all w p q = w"
  using replace_all_append[of w p "[]" q] by (simp add: replace_all.simps)

lemma strip_split:
  obtains u v where "s = u @ strip s @ v" "\<forall>c\<in>set u. is_space c" "\<forall>c\<in>set v. is_space c"
proof -
  have l: "s = takeWhile is_space s @ lstrip s" by (simp add: lstrip_def)
  have r: "lstrip s = strip s @ rev (takeWhile is_space (rev (lstrip s)))"
    unfolding strip_def rstrip_def by (metis rev_append rev_rev_ident takeWhile_dropWhile_id)
  from l r have "s = takeWhile is_space s @ strip s @ rev (takeWhile is_space (rev (lstrip s)))" by metis
  then show thesis by (rule that) (auto dest: set_takeWhileD)
qed

end
