(* ===== verification/PyFloat.thy ===== *)
theory PyFloat
  imports Prelude Complex_Main "HOL-Library.Log_Nat"
begin

text \<open>
  Python's \<open>float\<close>: the double nearest to a decimal literal, and the fixed-point formats
  \<^verbatim>\<open>f"{value:.6f}"\<close> the receipt checks compare with tool logs.

  A float is carried as the text \<open>repr(value)\<close> gives it (the shortest decimal that reads back as
  the same double), so printing one is immediate; \<open>float_val\<close> is the exact rational value of the
  double. Infinities and NaN, which no receipt of the repository carries, are outside the model.
\<close>

section \<open>Decimal literals\<close>

definition digit_val :: "char \<Rightarrow> nat" where
  "digit_val c = of_char c - 48"

definition digits_val :: "string \<Rightarrow> nat" where
  "digits_val s = foldl (\<lambda>a c. 10 * a + digit_val c) 0 s"

definition signed_digits_val :: "string \<Rightarrow> int" where
  "signed_digits_val s =
     (case s of [] \<Rightarrow> 0
      | c # cs \<Rightarrow> if c = CHR ''-'' then - int (digits_val cs)
                 else if c = CHR ''+'' then int (digits_val cs)
                 else int (digits_val s))"

definition is_exp :: "char \<Rightarrow> bool" where
  "is_exp c \<longleftrightarrow> c = CHR ''e'' \<or> c = CHR ''E''"

definition pow10 :: "int \<Rightarrow> rat" where
  "pow10 e = (if 0 \<le> e then 10 ^ nat e else 1 / 10 ^ nat (- e))"

text \<open>The exact value of an unsigned literal \<^verbatim>\<open>123.45e-6\<close>.\<close>

definition decimal_abs :: "string \<Rightarrow> rat" where
  "decimal_abs s =
     (let mant = takeWhile (\<lambda>c. \<not> is_exp c) s;
          ex = signed_digits_val (drop 1 (dropWhile (\<lambda>c. \<not> is_exp c) s));
          ip = takeWhile (\<lambda>c. c \<noteq> CHR ''.'') mant;
          fp = drop 1 (dropWhile (\<lambda>c. c \<noteq> CHR ''.'') mant)
      in of_nat (digits_val (ip @ fp)) * pow10 (ex - int (length fp)))"

definition is_negative :: "string \<Rightarrow> bool" where
  "is_negative s \<longleftrightarrow> startswith s ''-''"

section \<open>Rounding to a double\<close>

definition round_half_even :: "rat \<Rightarrow> int" where
  "round_half_even x =
     (let f = \<lfloor>x\<rfloor>; r = x - of_int f in
      if r < 1/2 then f else if r > 1/2 then f + 1 else if even f then f else f + 1)"

definition pow2 :: "int \<Rightarrow> rat" where
  "pow2 e = (if 0 \<le> e then 2 ^ nat e else 1 / 2 ^ nat (- e))"

text \<open>The exponent of the least bit of the double nearest to a positive \<open>x\<close>: 53 bits of
  significand, none below \<open>2 ^ -1074\<close>.\<close>

definition ulp_exp :: "rat \<Rightarrow> int" where
  "ulp_exp x =
     (let (p, q) = quotient_of x;
          k = bitlen p - bitlen q;
          k' = (if x < pow2 k then k - 1 else k)
      in max (k' - 52) (- 1074))"

definition double_abs :: "rat \<Rightarrow> rat" where
  "double_abs x =
     (if x \<le> 0 then 0 else of_int (round_half_even (x / pow2 (ulp_exp x))) * pow2 (ulp_exp x))"

text \<open>The value of the float whose text is \<open>s\<close>, and \<open>float(i)\<close> of an integer.\<close>

definition float_val :: "string \<Rightarrow> rat" where
  "float_val s =
     (if is_negative s then - double_abs (decimal_abs (drop 1 s)) else double_abs (decimal_abs s))"

definition float_of_int :: "int \<Rightarrow> rat" where
  "float_of_int i = (if i < 0 then - double_abs (of_int (- i)) else double_abs (of_int i))"

text \<open>Arithmetic: the exact result, rounded once. \<open>i * x\<close> of an \<open>int\<close> and a \<open>float\<close> converts the
  \<open>int\<close> first.\<close>

definition round_double :: "rat \<Rightarrow> rat" where
  "round_double x = (if x < 0 then - double_abs (- x) else double_abs x)"

definition float_add :: "rat \<Rightarrow> rat \<Rightarrow> rat" where
  "float_add x y = round_double (x + y)"

definition float_scale :: "nat \<Rightarrow> rat \<Rightarrow> rat" where
  "float_scale n x = round_double (round_double (of_nat n) * x)"

text \<open>The literals \<open>float(s)\<close> accepts among texts of digits, points, exponent letters and signs:
  \<open>None\<close> is the ValueError.\<close>

definition unsigned_literal :: "string \<Rightarrow> bool" where
  "unsigned_literal s \<longleftrightarrow>
     (let mant = takeWhile (\<lambda>c. \<not> is_exp c) s; rest = dropWhile (\<lambda>c. \<not> is_exp c) s;
          ip = takeWhile (\<lambda>c. c \<noteq> CHR ''.'') mant; fp = drop 1 (dropWhile (\<lambda>c. c \<noteq> CHR ''.'') mant);
          ex = drop 1 rest;
          digits = (if startswith ex ''+'' \<or> startswith ex ''-'' then drop 1 ex else ex)
      in ip @ fp \<noteq> [] \<and> list_all is_digit ip \<and> list_all is_digit fp \<and>
         (rest = [] \<or> digits \<noteq> [] \<and> list_all is_digit digits))"

definition parse_float :: "string \<Rightarrow> rat option" where
  "parse_float s =
     (let body = (if startswith s ''+'' \<or> startswith s ''-'' then drop 1 s else s) in
      if unsigned_literal body
      then Some (if is_negative s then - double_abs (decimal_abs body) else double_abs (decimal_abs body))
      else None)"

section \<open>Fixed-point text\<close>

definition zero_pad :: "nat \<Rightarrow> string \<Rightarrow> string" where
  "zero_pad n s = replicate (n - length s) CHR ''0'' @ s"

text \<open>\<^verbatim>\<open>f"{x:.nf}"\<close> of a float with the given sign and absolute value.\<close>

definition format_fixed :: "nat \<Rightarrow> bool \<Rightarrow> rat \<Rightarrow> string" where
  "format_fixed n neg x =
     (let m = nat (round_half_even (x * 10 ^ n)) in
      (if neg then ''-'' else []) @ dec (m div 10 ^ n) @
      (if n = 0 then [] else ''.'' @ zero_pad n (dec (m mod 10 ^ n))))"

section \<open>Lemmas\<close>

lemma round_half_even_int [simp]: "round_half_even (of_int i) = i"
  by (simp add: round_half_even_def)

lemma round_half_even_near: "\<bar>of_int (round_half_even x) - x\<bar> \<le> 1/2"
proof -
  let ?f = "of_int \<lfloor>x\<rfloor> :: rat"
  have f: "?f \<le> x" "x < ?f + 1" by linarith+
  have "of_int (round_half_even x) = ?f \<and> x - ?f \<le> 1/2 \<or>
      of_int (round_half_even x) = ?f + 1 \<and> x - ?f \<ge> 1/2"
    by (auto simp: round_half_even_def Let_def)
  with f show ?thesis by linarith
qed

lemma round_half_even_mono_int: "of_int i \<le> x \<Longrightarrow> i \<le> round_half_even x"
proof -
  assume "of_int i \<le> x"
  then have "i \<le> \<lfloor>x\<rfloor>" by (simp add: le_floor_iff)
  then show ?thesis by (simp add: round_half_even_def Let_def)
qed

lemma pow2_pos [simp]: "0 < pow2 e"
  by (simp add: pow2_def)

lemma pow2_neq0 [simp]: "pow2 e \<noteq> 0"
  using pow2_pos[of e] by linarith

text \<open>Rounding moves a value by at most half of its last place.\<close>

lemma double_abs_error: "0 < x \<Longrightarrow> \<bar>double_abs x - x\<bar> \<le> pow2 (ulp_exp x) / 2"
proof -
  assume "0 < x"
  let ?u = "pow2 (ulp_exp x)"
  have "\<bar>of_int (round_half_even (x / ?u)) - x / ?u\<bar> * ?u \<le> 1/2 * ?u"
    using round_half_even_near by (intro mult_right_mono) (auto simp: less_imp_le)
  moreover have "\<bar>of_int (round_half_even (x / ?u)) - x / ?u\<bar> * ?u =
      \<bar>(of_int (round_half_even (x / ?u)) - x / ?u) * ?u\<bar>"
    by (simp add: abs_mult less_imp_le)
  moreover have "(of_int (round_half_even (x / ?u)) - x / ?u) * ?u =
      of_int (round_half_even (x / ?u)) * ?u - x"
    by (simp add: left_diff_distrib)
  ultimately show ?thesis using \<open>0 < x\<close> by (simp add: double_abs_def)
qed

lemma double_abs_exact: "0 < x \<Longrightarrow> x = of_int i * pow2 (ulp_exp x) \<Longrightarrow> double_abs x = x"
proof -
  assume x: "0 < x" "x = of_int i * pow2 (ulp_exp x)"
  then have "x / pow2 (ulp_exp x) = of_int i" by (simp add: field_simps)
  with x show ?thesis by (simp add: double_abs_def)
qed

lemma length_zero_pad: "length s \<le> n \<Longrightarrow> length (zero_pad n s) = n"
  by (simp add: zero_pad_def)

end
