(* ===== verification/Json.thy ===== *)
theory Json
  imports Prelude PyFloat
begin

text \<open>
  The values \<open>json.loads\<close> returns, as Python objects: \<open>dict.get\<close>, truth value, \<open>==\<close>, \<open>str\<close> and
  \<open>repr\<close>. A \<open>dict\<close> is an association list in insertion order with distinct keys (\<open>wf_json\<close>).
  A \<open>float\<close> carries its \<open>repr\<close> text (theory \<open>PyFloat\<close>). An operation that raises in Python
  returns the left side of a sum.
\<close>

section \<open>Values\<close>

datatype json =
    JNull
  | JBool bool
  | JInt int
  | JFloat string
  | JStr string
  | JArr "json list"
  | JObj "(string \<times> json) list"

type_synonym obj = "(string \<times> json) list"

datatype py_error =
    AttributeError | TypeError | KeyError string | ValueError string | FileNotFoundError string
  | RecursionError | ToolError string | GateError string | ProvisioningError string

type_synonym 'a res = "py_error + 'a"

definition bind_res :: "'a res \<Rightarrow> ('a \<Rightarrow> 'b res) \<Rightarrow> 'b res" where
  "bind_res m f = (case m of Inl e \<Rightarrow> Inl e | Inr x \<Rightarrow> f x)"

lemma bind_res_simps [simp]:
  "bind_res (Inl e) f = Inl e"
  "bind_res (Inr x) f = f x"
  by (simp_all add: bind_res_def)

lemma bind_res_eq_Inr: "bind_res m f = Inr y \<longleftrightarrow> (\<exists>x. m = Inr x \<and> f x = Inr y)"
  by (cases m) auto

lemma bind_res_eq_Inl:
  "bind_res m f = Inl e \<longleftrightarrow> m = Inl e \<or> (\<exists>x. m = Inr x \<and> f x = Inl e)"
  by (cases m) auto

text \<open>\<open>[f(x) for x in xs]\<close> where \<open>f\<close> may raise.\<close>

fun map_res :: "('a \<Rightarrow> 'b res) \<Rightarrow> 'a list \<Rightarrow> 'b list res" where
  "map_res f [] = Inr []"
| "map_res f (x # xs) = bind_res (f x) (\<lambda>y. bind_res (map_res f xs) (\<lambda>ys. Inr (y # ys)))"

lemma map_res_Inr: "map_res f xs = Inr ys \<longleftrightarrow> list_all2 (\<lambda>x y. f x = Inr y) xs ys"
  by (induction xs arbitrary: ys) (auto simp: bind_res_eq_Inr list_all2_Cons1)

lemma json_size_arr [termination_simp]: "x \<in> set xs \<Longrightarrow> size x < Suc (size_list size xs)"
  by (induction xs) auto

lemma json_size_obj [termination_simp]:
  "(k, v) \<in> set kvs \<Longrightarrow> size v < Suc (size_list (size_prod (\<lambda>_. 0) size) kvs)"
  by (induction kvs) auto

lemma json_size_zip [termination_simp]:
  "(x, y) \<in> set (zip xs ys) \<Longrightarrow> size x < Suc (size_list size xs)"
  by (auto dest: set_zip_leftD json_size_arr)

fun wf_json :: "json \<Rightarrow> bool" where
  "wf_json (JArr xs) = list_all wf_json xs"
| "wf_json (JObj kvs) = (distinct (map fst kvs) \<and> list_all (\<lambda>(k, v). wf_json v) kvs)"
| "wf_json _ = True"

section \<open>Dictionaries\<close>

text \<open>\<open>d.get(k)\<close>: \<open>None\<close> is \<open>JNull\<close>, for a missing key as for a \<^verbatim>\<open>null\<close>.\<close>

definition get_or :: "json \<Rightarrow> obj \<Rightarrow> string \<Rightarrow> json" where
  "get_or d kvs k = (case map_of kvs k of None \<Rightarrow> d | Some v \<Rightarrow> v)"

definition get :: "obj \<Rightarrow> string \<Rightarrow> json" where
  "get kvs k = get_or JNull kvs k"

definition has_key :: "obj \<Rightarrow> string \<Rightarrow> bool" where
  "has_key kvs k \<longleftrightarrow> map_of kvs k \<noteq> None"

text \<open>\<open>d[k] = v\<close>: a present key keeps its place, a new one goes to the end.\<close>

fun dict_set :: "('k \<times> 'v) list \<Rightarrow> 'k \<Rightarrow> 'v \<Rightarrow> ('k \<times> 'v) list" where
  "dict_set [] k v = [(k, v)]"
| "dict_set ((k', v') # kvs) k v =
     (if k = k' then (k', v) # kvs else (k', v') # dict_set kvs k v)"

text \<open>\<open>d.setdefault(k, v)\<close>.\<close>

definition dict_setdefault :: "('k \<times> 'v) list \<Rightarrow> 'k \<Rightarrow> 'v \<Rightarrow> ('k \<times> 'v) list" where
  "dict_setdefault kvs k v = (if k \<in> fst ` set kvs then kvs else kvs @ [(k, v)])"

text \<open>The dictionary built by a sequence of assignments.\<close>

definition dict_of :: "('k \<times> 'v) list \<Rightarrow> ('k \<times> 'v) list" where
  "dict_of kvs = foldl (\<lambda>d (k, v). dict_set d k v) [] kvs"

lemma map_of_dict_set [simp]: "map_of (dict_set d k v) = (map_of d)(k \<mapsto> v)"
  by (induction d k v rule: dict_set.induct) (auto simp: fun_eq_iff)

lemma keys_dict_set: "fst ` set (dict_set d k v) = insert k (fst ` set d)"
  by (induction d k v rule: dict_set.induct) auto

lemma distinct_dict_set [simp]:
  "distinct (map fst d) \<Longrightarrow> distinct (map fst (dict_set d k v))"
proof (induction d k v rule: dict_set.induct)
  case (2 k' v' kvs k v)
  then show ?case using keys_dict_set[of kvs k v] by (auto simp flip: set_map)
qed simp

lemma map_of_dict_setdefault:
  "map_of (dict_setdefault d k v) = (if map_of d k = None then (map_of d)(k \<mapsto> v) else map_of d)"
proof (cases "k \<in> fst ` set d")
  case False
  then have "map_of d k = None" by (simp add: map_of_eq_None_iff)
  moreover have "map_of (d @ [(k, v)]) = (map_of d)(k \<mapsto> v)"
    using calculation by (auto simp: map_add_def fun_eq_iff split: option.splits)
  ultimately show ?thesis using False by (simp add: dict_setdefault_def)
qed (auto simp: dict_setdefault_def map_of_eq_None_iff)

text \<open>
  What the scripts rely on in a dictionary: an assignment is read back, other keys keep their
  values, and the keys stay distinct.
\<close>

locale dictionary =
  fixes lookup :: "'d \<Rightarrow> 'k \<Rightarrow> 'v option"
    and assign :: "'d \<Rightarrow> 'k \<Rightarrow> 'v \<Rightarrow> 'd"
    and blank :: 'd
    and invar :: "'d \<Rightarrow> bool"
  assumes lookup_blank: "lookup blank k = None"
    and lookup_assign: "invar d \<Longrightarrow> lookup (assign d k v) k' = (if k' = k then Some v else lookup d k')"
    and invar_blank: "invar blank"
    and invar_assign: "invar d \<Longrightarrow> invar (assign d k v)"
begin

lemma invar_fold: "invar d \<Longrightarrow> invar (foldl (\<lambda>d (k, v). assign d k v) d kvs)"
  by (induction kvs arbitrary: d) (auto simp: invar_assign)

text \<open>A loop of assignments leaves under each key the last value assigned to it.\<close>

lemma lookup_fold:
  "invar d \<Longrightarrow> lookup (foldl (\<lambda>d (k, v). assign d k v) d kvs) k =
     (case map_of (rev kvs) k of Some v \<Rightarrow> Some v | None \<Rightarrow> lookup d k)"
proof (induction kvs arbitrary: d)
  case (Cons kv kvs)
  obtain k' v' where kv: "kv = (k', v')" by force
  have "invar (assign d k' v')" using Cons.prems by (rule invar_assign)
  from Cons.IH[OF this] Cons.prems show ?case
    by (auto simp: kv lookup_assign map_add_def split: option.splits)
qed simp

lemma lookup_fold_blank:
  "lookup (foldl (\<lambda>d (k, v). assign d k v) blank kvs) k = map_of (rev kvs) k"
  by (simp add: lookup_fold[OF invar_blank] lookup_blank split: option.splits)

end

interpretation py_dict: dictionary map_of dict_set "[]" "\<lambda>d. distinct (map fst d)"
  by unfold_locales auto

lemma map_of_dict_of: "map_of (dict_of kvs) k = map_of (rev kvs) k"
  unfolding dict_of_def by (rule py_dict.lookup_fold_blank)

lemma distinct_dict_of: "distinct (map fst (dict_of kvs))"
  unfolding dict_of_def by (rule py_dict.invar_fold) simp

lemma keys_dict_of: "fst ` set (dict_of kvs) = fst ` set kvs"
proof -
  have "fst ` set (foldl (\<lambda>d (k, v). dict_set d k v) d kvs) = fst ` set d \<union> fst ` set kvs" for d
  proof (induction kvs arbitrary: d)
    case (Cons kv kvs)
    then show ?case by (cases kv) (simp add: keys_dict_set)
  qed simp
  then show ?thesis by (simp add: dict_of_def)
qed

lemma dict_set_new: "k \<notin> fst ` set d \<Longrightarrow> dict_set d k v = d @ [(k, v)]"
  by (induction d k v rule: dict_set.induct) auto

lemma foldl_dict_set_new:
  "distinct (map fst (d @ kvs)) \<Longrightarrow> foldl (\<lambda>d (k, v). dict_set d k v) d kvs = d @ kvs"
proof (induction kvs arbitrary: d)
  case (Cons kv kvs)
  obtain k v where kv: "kv = (k, v)" by force
  with Cons.prems have "k \<notin> fst ` set d" by auto
  with kv Cons.prems Cons.IH[of "d @ [(k, v)]"] show ?case by (simp add: dict_set_new)
qed simp

lemma dict_of_distinct: "distinct (map fst kvs) \<Longrightarrow> dict_of kvs = kvs"
  using foldl_dict_set_new[of "[]" kvs] by (simp add: dict_of_def)

section \<open>Truth, equality, text\<close>

definition num_of :: "json \<Rightarrow> rat option" where
  "num_of v = (case v of JBool b \<Rightarrow> Some (if b then 1 else 0) | JInt i \<Rightarrow> Some (of_int i)
                | JFloat s \<Rightarrow> Some (float_val s) | _ \<Rightarrow> None)"

definition truthy :: "json \<Rightarrow> bool" where
  "truthy v = (case v of JNull \<Rightarrow> False | JBool b \<Rightarrow> b | JInt i \<Rightarrow> i \<noteq> 0
                | JFloat s \<Rightarrow> float_val s \<noteq> 0 | JStr s \<Rightarrow> s \<noteq> []
                | JArr xs \<Rightarrow> xs \<noteq> [] | JObj kvs \<Rightarrow> kvs \<noteq> [])"

text \<open>\<open>a == b\<close>: numbers compare by value across \<open>bool\<close>, \<open>int\<close> and \<open>float\<close>.\<close>

fun py_eq :: "json \<Rightarrow> json \<Rightarrow> bool" where
  "py_eq JNull w = (w = JNull)"
| "py_eq (JStr a) w = (w = JStr a)"
| "py_eq (JArr xs) w =
     (case w of JArr ys \<Rightarrow> length xs = length ys \<and> list_all (\<lambda>(x, y). py_eq x y) (zip xs ys)
      | _ \<Rightarrow> False)"
| "py_eq (JObj kvs) w =
     (case w of
        JObj kws \<Rightarrow> length kvs = length kws \<and>
          list_all (\<lambda>(k, v). case map_of kws k of None \<Rightarrow> False | Some w \<Rightarrow> py_eq v w) kvs
      | _ \<Rightarrow> False)"
| "py_eq v w = (num_of w \<noteq> None \<and> num_of v = num_of w)"

lemma py_eq_str [simp]: "py_eq v (JStr s) \<longleftrightarrow> v = JStr s"
  by (cases v) (auto simp: num_of_def)

lemma py_eq_null [simp]: "py_eq v JNull \<longleftrightarrow> v = JNull"
  by (cases v) (auto simp: num_of_def)

text \<open>A key a dict or a set can hold, and the representative its hash identifies it by.\<close>

fun hashable :: "json \<Rightarrow> bool" where
  "hashable (JArr _) = False"
| "hashable (JObj _) = False"
| "hashable _ = True"

definition hash_key :: "json \<Rightarrow> json" where
  "hash_key v = (case num_of v of None \<Rightarrow> v
     | Some q \<Rightarrow> if of_int \<lfloor>q\<rfloor> = q then JInt \<lfloor>q\<rfloor> else v)"

lemma hash_key_str [simp]: "hash_key (JStr s) = JStr s"
  by (simp add: hash_key_def num_of_def)

definition is_dict :: "json \<Rightarrow> bool" where
  "is_dict v = (case v of JObj _ \<Rightarrow> True | _ \<Rightarrow> False)"

definition is_str :: "json \<Rightarrow> bool" where
  "is_str v = (case v of JStr _ \<Rightarrow> True | _ \<Rightarrow> False)"

text \<open>\<open>isinstance(v, (int, float)) and not isinstance(v, bool)\<close>.\<close>

definition is_number :: "json \<Rightarrow> bool" where
  "is_number v = (case v of JInt _ \<Rightarrow> True | JFloat _ \<Rightarrow> True | _ \<Rightarrow> False)"

text \<open>\<open>v or {}\<close>, and reading an attribute \<open>.get\<close> of it.\<close>

definition or_empty :: "json \<Rightarrow> json" where
  "or_empty v = (if truthy v then v else JObj [])"

definition as_obj :: "json \<Rightarrow> obj res" where
  "as_obj v = (case v of JObj kvs \<Rightarrow> Inr kvs | _ \<Rightarrow> Inl AttributeError)"

text \<open>\<open>v[key]\<close> and \<open>v.get(key, d)\<close> of any value.\<close>

definition subscript :: "json \<Rightarrow> string \<Rightarrow> json res" where
  "subscript v key =
     (case v of
        JObj kvs \<Rightarrow> (case map_of kvs key of Some x \<Rightarrow> Inr x | None \<Rightarrow> Inl (KeyError key))
      | _ \<Rightarrow> Inl TypeError)"

definition get_attr :: "json \<Rightarrow> string \<Rightarrow> json \<Rightarrow> json res" where
  "get_attr v key d = bind_res (as_obj v) (\<lambda>kvs. Inr (get_or d kvs key))"

definition hex_digit :: "nat \<Rightarrow> char" where
  "hex_digit d = (if d < 10 then char_of (48 + d) else char_of (87 + d))"

definition repr_char :: "char \<Rightarrow> char \<Rightarrow> string" where
  "repr_char q c =
     (if c = q \<or> c = BACKSLASH then [BACKSLASH, c]
      else if c = TAB then [BACKSLASH, CHR ''t'']
      else if c = NL then [BACKSLASH, CHR ''n'']
      else if c = CR then [BACKSLASH, CHR ''r'']
      else if c < CHR '' '' \<or> c = CHR 0x7F
      then [BACKSLASH, CHR ''x'', hex_digit (of_char c div 16), hex_digit (of_char c mod 16)]
      else [c])"

definition repr_str :: "string \<Rightarrow> string" where
  "repr_str s =
     (let q = (if SQUOTE \<in> set s \<and> DQUOTE \<notin> set s then DQUOTE else SQUOTE)
      in [q] @ concat (map (repr_char q) s) @ [q])"

fun py_repr :: "json \<Rightarrow> string" where
  "py_repr JNull = ''None''"
| "py_repr (JBool b) = (if b then ''True'' else ''False'')"
| "py_repr (JInt i) = dec_int i"
| "py_repr (JFloat s) = s"
| "py_repr (JStr s) = repr_str s"
| "py_repr (JArr xs) = ''['' @ join '', '' (map py_repr xs) @ '']''"
| "py_repr (JObj kvs) =
     ''{'' @ join '', '' (map (\<lambda>(k, v). repr_str k @ '': '' @ py_repr v) kvs) @ ''}''"

definition py_str :: "json \<Rightarrow> string" where
  "py_str v = (case v of JStr s \<Rightarrow> s | _ \<Rightarrow> py_repr v)"

text \<open>\<open>isinstance(v, str) and bool(v.strip())\<close>: \<^verbatim>\<open>_nonempty_string\<close> of the receipt verifier.\<close>

definition nonempty_string :: "json \<Rightarrow> bool" where
  "nonempty_string v = (case v of JStr s \<Rightarrow> strip s \<noteq> [] | _ \<Rightarrow> False)"

lemma py_str_JStr [simp]: "py_str (JStr s) = s"
  by (simp add: py_str_def)

lemma is_dict_iff: "is_dict v \<longleftrightarrow> (\<exists>kvs. v = JObj kvs)"
  by (cases v) (auto simp: is_dict_def)

lemma is_str_iff: "is_str v \<longleftrightarrow> (\<exists>s. v = JStr s)"
  by (cases v) (auto simp: is_str_def)

lemma nonempty_string_iff: "nonempty_string v \<longleftrightarrow> (\<exists>s. v = JStr s \<and> strip s \<noteq> [])"
  by (cases v) (auto simp: nonempty_string_def)

lemma as_obj_Inr [simp]: "as_obj v = Inr kvs \<longleftrightarrow> v = JObj kvs"
  by (cases v) (auto simp: as_obj_def)

lemma get_simps [simp]:
  "get ((k, v) # kvs) k' = (if k = k' then v else get kvs k')"
  "get [] k' = JNull"
  by (auto simp: get_def get_or_def)

lemma get_or_simps [simp]:
  "get_or d ((k, v) # kvs) k' = (if k = k' then v else get_or d kvs k')"
  "get_or d [] k' = d"
  by (auto simp: get_or_def)

lemma get_map_of: "map_of kvs k = Some v \<Longrightarrow> get kvs k = v"
  by (simp add: get_def get_or_def)

end
