(* ===== verification/Files.thy ===== *)
theory Files
  imports Prelude Json
begin

text \<open>
  The file system as the scripts see it through \<open>pathlib\<close>: a tree of directories and regular
  files (the published tree has no symbolic links), paths as lists of components, and the UTF-8
  decoding of a file's bytes with the three error handlers the scripts use.
\<close>

section \<open>The tree\<close>

datatype node = File bytes | Dir "(string \<times> node) list"

type_synonym path = "string list"

lemma node_size_dir [termination_simp]:
  "(k, v) \<in> set es \<Longrightarrow> size v < Suc (size_list (size_prod (\<lambda>_. 0) size) es)"
  by (induction es) auto

fun lookup :: "node \<Rightarrow> path \<Rightarrow> node option" where
  "lookup n [] = Some n"
| "lookup (File b) (c # cs) = None"
| "lookup (Dir es) (c # cs) = (case map_of es c of None \<Rightarrow> None | Some n \<Rightarrow> lookup n cs)"

text \<open>
  How the operating system follows a path: every component but the last must be a directory, and
  \<^verbatim>\<open>..\<close> goes back to the parent. The second argument is the current directory, reversed.
\<close>

fun walk :: "node \<Rightarrow> path \<Rightarrow> path \<Rightarrow> node option" where
  "walk fs cur [] = lookup fs (rev cur)"
| "walk fs cur (c # cs) =
     (case lookup fs (rev cur) of
        Some (Dir es) \<Rightarrow> walk fs (if c = ''..'' then tl cur else c # cur) cs
      | _ \<Rightarrow> None)"

definition is_file :: "node \<Rightarrow> path \<Rightarrow> bool" where
  "is_file fs p = (case walk fs [] p of Some (File _) \<Rightarrow> True | _ \<Rightarrow> False)"

definition is_dir :: "node \<Rightarrow> path \<Rightarrow> bool" where
  "is_dir fs p = (case walk fs [] p of Some (Dir _) \<Rightarrow> True | _ \<Rightarrow> False)"

definition exists_path :: "node \<Rightarrow> path \<Rightarrow> bool" where
  "exists_path fs p = (walk fs [] p \<noteq> None)"

definition read_bytes :: "node \<Rightarrow> path \<Rightarrow> bytes option" where
  "read_bytes fs p = (case walk fs [] p of Some (File b) \<Rightarrow> Some b | _ \<Rightarrow> None)"

definition list_dir :: "node \<Rightarrow> path \<Rightarrow> (string \<times> node) list" where
  "list_dir fs p = (case walk fs [] p of Some (Dir es) \<Rightarrow> es | _ \<Rightarrow> [])"

text \<open>Every regular file below a node, by its path from there: \<^verbatim>\<open>rglob("*")\<close> filtered by
  \<open>is_file\<close>.\<close>

fun files_below :: "node \<Rightarrow> path list" where
  "files_below (File b) = [[]]"
| "files_below (Dir es) = concat (map (\<lambda>(k, n). map ((#) k) (files_below n)) es)"

text \<open>A tree whose directories name each entry once, with names a path component can have.\<close>

fun wf_node :: "node \<Rightarrow> bool" where
  "wf_node (File b) = True"
| "wf_node (Dir es) =
     (distinct (map fst es) \<and>
      list_all (\<lambda>(k, n). k \<noteq> [] \<and> k \<noteq> ''.'' \<and> k \<noteq> ''..'' \<and> CHR ''/'' \<notin> set k \<and> wf_node n) es)"

section \<open>Paths\<close>

definition is_absolute :: "string \<Rightarrow> bool" where
  "is_absolute s = startswith s ''/''"

text \<open>The components of \<open>PurePosixPath(s)\<close> after the root: empty ones and \<^verbatim>\<open>.\<close> are dropped.\<close>

definition path_parts :: "string \<Rightarrow> path" where
  "path_parts s = filter (\<lambda>c. c \<noteq> [] \<and> c \<noteq> ''.'') (split_on CHR ''/'' s)"

text \<open>\<open>base / s\<close>: an absolute \<open>s\<close> replaces the base.\<close>

definition join_path :: "path \<Rightarrow> string \<Rightarrow> path" where
  "join_path base s = (if is_absolute s then path_parts s else base @ path_parts s)"

text \<open>\<open>path.resolve()\<close> in a tree without symbolic links.\<close>

definition resolve :: "path \<Rightarrow> path" where
  "resolve p = rev (foldl (\<lambda>cur c. if c = ''..'' then tl cur else c # cur) [] p)"

text \<open>\<open>p.relative_to(base)\<close>; \<open>None\<close> is the ValueError.\<close>

definition relative_to :: "path \<Rightarrow> path \<Rightarrow> path option" where
  "relative_to p base = (if prefix base p then Some (drop (length base) p) else None)"

definition as_posix :: "path \<Rightarrow> string" where
  "as_posix p = join ''/'' p"

definition path_name :: "path \<Rightarrow> string" where
  "path_name p = (if p = [] then [] else last p)"

section \<open>UTF-8\<close>

definition in_byte :: "nat \<Rightarrow> nat \<Rightarrow> char \<Rightarrow> bool" where
  "in_byte lo hi c \<longleftrightarrow> lo \<le> of_char c \<and> of_char c \<le> hi"

text \<open>For a lead byte: how many continuation bytes follow, and the range of the first of them.\<close>

definition lead_info :: "nat \<Rightarrow> (nat \<times> nat \<times> nat) option" where
  "lead_info n =
     (if 0xC2 \<le> n \<and> n \<le> 0xDF then Some (1, 0x80, 0xBF)
      else if n = 0xE0 then Some (2, 0xA0, 0xBF)
      else if n = 0xED then Some (2, 0x80, 0x9F)
      else if 0xE1 \<le> n \<and> n \<le> 0xEF then Some (2, 0x80, 0xBF)
      else if n = 0xF0 then Some (3, 0x90, 0xBF)
      else if 0xF1 \<le> n \<and> n \<le> 0xF3 then Some (3, 0x80, 0xBF)
      else if n = 0xF4 then Some (3, 0x80, 0x8F)
      else None)"

text \<open>Whether the text starts with a well-formed sequence, and how many bytes the sequence (or the
  part of it that is there) takes.\<close>

definition utf8_step :: "bytes \<Rightarrow> bool \<times> nat" where
  "utf8_step s =
     (case s of
        [] \<Rightarrow> (True, 0)
      | c # cs \<Rightarrow>
          if of_char c < (0x80 :: nat) then (True, 1)
          else (case lead_info (of_char c) of
             None \<Rightarrow> (False, 1)
           | Some (m, lo, hi) \<Rightarrow>
               let k = (case cs of [] \<Rightarrow> 0
                        | a # r \<Rightarrow> if in_byte lo hi a
                                  then Suc (length (takeWhile (in_byte 0x80 0xBF) (take (m - 1) r)))
                                  else 0)
               in (k = m, Suc k)))"

lemma utf8_step_pos: "s \<noteq> [] \<Longrightarrow> 0 < snd (utf8_step s)"
  by (cases s) (auto simp: utf8_step_def Let_def split: option.splits)

text \<open>Decoding with a given text for each malformed part: U+FFFD for \<open>errors="replace"\<close>, nothing
  for \<open>errors="ignore"\<close>.\<close>

function utf8_decode :: "string \<Rightarrow> bytes \<Rightarrow> str" where
  "utf8_decode bad s =
     (if s = [] then []
      else (if fst (utf8_step s) then take (snd (utf8_step s)) s else bad)
           @ utf8_decode bad (drop (snd (utf8_step s)) s))"
  by pat_completeness auto
termination
  by (relation "measure (\<lambda>(bad, s). length s)") (use utf8_step_pos in auto)

declare utf8_decode.simps [simp del]

function utf8_valid :: "bytes \<Rightarrow> bool" where
  "utf8_valid s =
     (if s = [] then True
      else fst (utf8_step s) \<and> utf8_valid (drop (snd (utf8_step s)) s))"
  by pat_completeness auto
termination
  by (relation "measure length") (use utf8_step_pos in auto)

declare utf8_valid.simps [simp del]

text \<open>\<open>text[:n]\<close>, counting code points.\<close>

fun take_points :: "nat \<Rightarrow> str \<Rightarrow> str" where
  "take_points n s =
     (if n = 0 \<or> s = [] then []
      else take (snd (utf8_step s)) s @ take_points (n - 1) (drop (snd (utf8_step s)) s))"

declare take_points.simps [simp del]

definition decode_replace :: "bytes \<Rightarrow> str" where
  "decode_replace = utf8_decode [CHR 0xEF, CHR 0xBF, CHR 0xBD]"

definition decode_ignore :: "bytes \<Rightarrow> str" where
  "decode_ignore = utf8_decode []"

text \<open>Strict decoding: \<open>None\<close> is the UnicodeDecodeError.\<close>

definition decode_strict :: "bytes \<Rightarrow> str option" where
  "decode_strict b = (if utf8_valid b then Some b else None)"

text \<open>Text mode turns \<^verbatim>\<open>\r\n\<close> and a lone \<^verbatim>\<open>\r\<close> into a newline (universal newlines).\<close>

fun universal_newlines :: "str \<Rightarrow> str" where
  "universal_newlines [] = []"
| "universal_newlines [c] = [if c = CR then NL else c]"
| "universal_newlines (c # d # cs) =
     (if c = CR then NL # universal_newlines (if d = NL then cs else d # cs)
      else c # universal_newlines (d # cs))"

text \<open>\<open>path.read_text(encoding="utf-8")\<close>, \<open>None\<close> for the OSError or the UnicodeDecodeError, and the
  same with \<open>errors="replace"\<close>, which only an OSError stops.\<close>

definition read_text :: "node \<Rightarrow> path \<Rightarrow> str option" where
  "read_text fs p =
     (case read_bytes fs p of None \<Rightarrow> None
      | Some b \<Rightarrow> map_option universal_newlines (decode_strict b))"

definition read_text_replace :: "node \<Rightarrow> path \<Rightarrow> str option" where
  "read_text_replace fs p = map_option (\<lambda>b. universal_newlines (decode_replace b)) (read_bytes fs p)"

text \<open>The same as a result: the exception is not told apart further.\<close>

definition read_text_res :: "node \<Rightarrow> path \<Rightarrow> str res" where
  "read_text_res fs p =
     (case read_text fs p of None \<Rightarrow> Inl (FileNotFoundError (as_posix p)) | Some t \<Rightarrow> Inr t)"

lemma read_text_res_Inr [simp]: "read_text_res fs p = Inr t \<longleftrightarrow> read_text fs p = Some t"
  by (simp add: read_text_res_def split: option.split)

text \<open>The tree without the entry at a path.\<close>

fun remove_path :: "node \<Rightarrow> path \<Rightarrow> node" where
  "remove_path (Dir es) [c] = Dir (filter (\<lambda>(k, n). k \<noteq> c) es)"
| "remove_path (Dir es) (c # d # ds) =
     Dir (map (\<lambda>(k, n). (k, if k = c then remove_path n (d # ds) else n)) es)"
| "remove_path n p = n"

section \<open>Lemmas\<close>

lemma lookup_remove_path: "p \<noteq> [] \<Longrightarrow> lookup (remove_path n p) p = None"
proof (induction n p rule: remove_path.induct)
  case (1 es c)
  have "map_of (filter (\<lambda>(k, n). k \<noteq> c) es) c = None" by (induction es) auto
  then show ?case by simp
next
  case (2 es c d ds)
  show ?case
  proof (cases "map_of es c")
    case None
    then have "map_of (map (\<lambda>(k, n). (k, if k = c then remove_path n (d # ds) else n)) es) c = None"
      by (induction es) (auto split: if_splits)
    then show ?thesis by simp
  next
    case (Some n)
    then have "map_of (map (\<lambda>(k, n). (k, if k = c then remove_path n (d # ds) else n)) es) c =
        Some (remove_path n (d # ds))"
      by (induction es) (auto split: if_splits)
    with "2.IH"[of "(c, n)" c n] map_of_SomeD[OF Some] show ?thesis by simp
  qed
qed (auto simp: neq_Nil_conv)

lemma universal_newlines_id: "CR \<notin> set s \<Longrightarrow> universal_newlines s = s"
  by (induction s rule: universal_newlines.induct) auto

lemma universal_newlines_no_cr: "CR \<notin> set (universal_newlines s)"
  by (induction s rule: universal_newlines.induct) auto

lemma utf8_decode_valid: "utf8_valid s \<Longrightarrow> utf8_decode bad s = s"
proof (induction s rule: utf8_valid.induct)
  case (1 s)
  show ?case
  proof (cases "s = []")
    case True
    then show ?thesis by (simp add: utf8_decode.simps)
  next
    case False
    with 1 show ?thesis by (simp add: utf8_valid.simps[of s] utf8_decode.simps[of bad s])
  qed
qed

lemma decode_agree: "decode_strict b = Some t \<Longrightarrow> decode_replace b = t \<and> decode_ignore b = t"
  by (auto simp: decode_strict_def decode_replace_def decode_ignore_def utf8_decode_valid split: if_splits)

definition ascii :: "string \<Rightarrow> bool" where
  "ascii s \<longleftrightarrow> (\<forall>c\<in>set s. of_char c < (0x80 :: nat))"

lemma ascii_valid: "ascii s \<Longrightarrow> utf8_valid s"
proof (induction s)
  case (Cons c cs)
  then show ?case by (subst utf8_valid.simps) (simp add: ascii_def utf8_step_def)
qed (simp add: utf8_valid.simps[of "[]"])

lemma take_points_ascii: "ascii s \<Longrightarrow> take_points n s = take n s"
proof (induction s arbitrary: n)
  case (Cons c s)
  then show ?case
    by (subst take_points.simps) (cases n; simp add: ascii_def utf8_step_def)
qed (simp add: take_points.simps)

lemma lookup_append: "lookup n (p @ q) = (case lookup n p of None \<Rightarrow> None | Some m \<Rightarrow> lookup m q)"
  by (induction n p rule: lookup.induct) (auto split: option.splits)

text \<open>On a path without \<^verbatim>\<open>..\<close> the operating system's walk is the plain lookup.\<close>

lemma walk_plain: "''..'' \<notin> set p \<Longrightarrow> walk fs cur p = lookup fs (rev cur @ p)"
proof (induction p arbitrary: cur)
  case (Cons c cs)
  then have IH: "walk fs (c # cur) cs = lookup fs (rev cur @ c # cs)" by simp
  show ?case
  proof (cases "lookup fs (rev cur)")
    case (Some n)
    then show ?thesis using Cons.prems IH by (cases n) (auto simp: lookup_append)
  qed (use Cons.prems in \<open>simp add: lookup_append\<close>)
qed simp

lemma resolve_plain: "''..'' \<notin> set p \<Longrightarrow> resolve p = p"
proof -
  have "''..'' \<notin> set p \<Longrightarrow> foldl (\<lambda>cur c. if c = ''..'' then tl cur else c # cur) acc p = rev p @ acc" for acc
    by (induction p arbitrary: acc) auto
  then show "''..'' \<notin> set p \<Longrightarrow> resolve p = p" by (simp add: resolve_def)
qed

lemma read_bytes_iff_file: "is_file fs p \<longleftrightarrow> (\<exists>b. read_bytes fs p = Some b)"
  by (auto simp: is_file_def read_bytes_def split: option.splits node.splits)

lemma files_below_iff:
  "wf_node n \<Longrightarrow> p \<in> set (files_below n) \<longleftrightarrow> (\<exists>b. lookup n p = Some (File b))"
proof (induction n arbitrary: p rule: files_below.induct)
  case (1 b)
  then show ?case by (cases p) auto
next
  case (2 es)
  show ?case
  proof (cases p)
    case (Cons c cs)
    have IH: "(k, n) \<in> set es \<Longrightarrow> q \<in> set (files_below n) \<longleftrightarrow> (\<exists>b. lookup n q = Some (File b))" for k n q
      using "2.IH"[of "(k, n)" k n q] "2.prems" by (auto simp: list_all_iff)
    have "p \<in> set (files_below (Dir es)) \<longleftrightarrow> (\<exists>n. (c, n) \<in> set es \<and> cs \<in> set (files_below n))"
      by (auto simp: Cons)
    also have "\<dots> \<longleftrightarrow> (\<exists>n. map_of es c = Some n \<and> cs \<in> set (files_below n))"
      using "2.prems" by simp
    also have "\<dots> \<longleftrightarrow> (\<exists>n b. map_of es c = Some n \<and> lookup n cs = Some (File b))"
      using IH by (blast dest: map_of_SomeD)
    also have "\<dots> \<longleftrightarrow> (\<exists>b. lookup (Dir es) p = Some (File b))"
      by (auto simp: Cons split: option.splits)
    finally show ?thesis .
  qed auto
qed

lemma wf_node_lookup: "wf_node n \<Longrightarrow> lookup n p = Some m \<Longrightarrow> wf_node m"
proof (induction n p rule: lookup.induct)
  case (3 es c cs)
  from "3.prems"(2) obtain k where k: "map_of es c = Some k" "lookup k cs = Some m"
    by (auto split: option.splits)
  from map_of_SomeD[OF k(1)] "3.prems"(1) have "wf_node k" by (auto simp: list_all_iff)
  with 3 k show ?case by simp
qed auto

lemma wf_node_names:
  "wf_node n \<Longrightarrow> lookup n p = Some m \<Longrightarrow> c \<in> set p \<Longrightarrow> c \<noteq> [] \<and> c \<noteq> ''.'' \<and> c \<noteq> ''..'' \<and> CHR ''/'' \<notin> set c"
proof (induction n p rule: lookup.induct)
  case (3 es d cs)
  from "3.prems"(2) obtain k where k: "map_of es d = Some k" "lookup k cs = Some m"
    by (auto split: option.splits)
  from map_of_SomeD[OF k(1)] "3.prems"(1) have
    "wf_node k" "d \<noteq> [] \<and> d \<noteq> ''.'' \<and> d \<noteq> ''..'' \<and> CHR ''/'' \<notin> set d" by (auto simp: list_all_iff)
  with 3 k show ?case by auto
qed auto

text \<open>A path made of proper component names is read back from its text.\<close>

lemma path_parts_as_posix:
  assumes "\<And>c. c \<in> set p \<Longrightarrow> c \<noteq> [] \<and> c \<noteq> ''.'' \<and> CHR ''/'' \<notin> set c"
  shows "path_parts (as_posix p) = p"
proof (cases "p = []")
  case True
  then show ?thesis by (simp add: path_parts_def as_posix_def)
next
  case False
  then have "split_on CHR ''/'' (as_posix p) = p"
    unfolding as_posix_def using assms by (intro split_on_join) auto
  then show ?thesis using assms by (simp add: path_parts_def filter_id_conv)
qed

lemma as_posix_not_absolute:
  assumes "\<And>c. c \<in> set p \<Longrightarrow> c \<noteq> [] \<and> CHR ''/'' \<notin> set c"
  shows "\<not> is_absolute (as_posix p)"
proof (cases p)
  case (Cons c cs)
  then obtain d ds where "c = d # ds" "d \<noteq> CHR ''/''" using assms[of c] by (cases c) auto
  with Cons show ?thesis by (cases cs) (auto simp: is_absolute_def as_posix_def startswith_def)
qed (simp add: is_absolute_def as_posix_def startswith_def)

end
