(* ===== verification/JsonText.thy ===== *)
theory JsonText
  imports Json Files
begin

text \<open>
  \<open>json.loads\<close> and \<open>json.dumps\<close> of Python's standard library, as far as the scripts use them: the
  grammar the C scanner accepts (with its lone constants \<^verbatim>\<open>NaN\<close> and \<^verbatim>\<open>Infinity\<close>), escapes and
  surrogate pairs, the last of several equal keys winning; and the printer with its separators, its
  indentation and its escaping of everything beyond printable ASCII.

  \<open>loads_dumps\<close> is the round trip: what the printer writes, in any of the styles the scripts use,
  the reader reads back. A \<open>float\<close> is carried as its literal, so the printer's text is Python's when
  the literal is the number's \<open>repr\<close>.
\<close>

section \<open>Reading\<close>

definition is_json_ws :: "char \<Rightarrow> bool" where
  "is_json_ws c \<longleftrightarrow> c = CHR '' '' \<or> c = TAB \<or> c = NL \<or> c = CR"

definition skip_ws :: "string \<Rightarrow> string" where
  "skip_ws s = dropWhile is_json_ws s"

definition hex_val :: "char \<Rightarrow> nat" where
  "hex_val c = (if is_digit c then of_char c - 48 else of_char (to_lower c) - 87)"

text \<open>UTF-8 of a code point (of a lone surrogate too, which a Python text can hold).\<close>

definition utf8_encode :: "nat \<Rightarrow> bytes" where
  "utf8_encode n =
     (if n < 0x80 then [char_of n]
      else if n < 0x800 then [char_of (0xC0 + n div 64), char_of (0x80 + n mod 64)]
      else if n < 0x10000
      then [char_of (0xE0 + n div 4096), char_of (0x80 + n div 64 mod 64), char_of (0x80 + n mod 64)]
      else [char_of (0xF0 + n div 262144), char_of (0x80 + n div 4096 mod 64),
            char_of (0x80 + n div 64 mod 64), char_of (0x80 + n mod 64)])"

text \<open>Four hexadecimal digits, and the rest of the text.\<close>

fun hex4 :: "string \<Rightarrow> (nat \<times> string) option" where
  "hex4 (a # b # c # d # r) =
     (if is_hex a \<and> is_hex b \<and> is_hex c \<and> is_hex d
      then Some (((hex_val a * 16 + hex_val b) * 16 + hex_val c) * 16 + hex_val d, r) else None)"
| "hex4 _ = None"

text \<open>After \<^verbatim>\<open>\u\<close>: the code point, joining a surrogate pair.\<close>

definition read_u :: "string \<Rightarrow> (nat \<times> string) option" where
  "read_u s =
     (case hex4 s of
        None \<Rightarrow> None
      | Some (u, r) \<Rightarrow>
          if 0xD800 \<le> u \<and> u \<le> 0xDBFF \<and> take 2 r = [BACKSLASH, CHR ''u'']
          then (case hex4 (drop 2 r) of
                  None \<Rightarrow> None
                | Some (v, r') \<Rightarrow>
                    if 0xDC00 \<le> v \<and> v \<le> 0xDFFF
                    then Some (0x10000 + (u - 0xD800) * 1024 + (v - 0xDC00), r') else Some (u, r))
          else Some (u, r))"

definition simple_escape :: "char \<Rightarrow> char option" where
  "simple_escape e =
     (if e = DQUOTE \<or> e = BACKSLASH \<or> e = CHR ''/'' then Some e
      else if e = CHR ''b'' then Some CHR 0x08 else if e = CHR ''f'' then Some CHR 0x0C
      else if e = CHR ''n'' then Some NL else if e = CHR ''r'' then Some CR
      else if e = CHR ''t'' then Some TAB else None)"

definition cons_fst :: "string \<Rightarrow> (string \<times> string) option \<Rightarrow> (string \<times> string) option" where
  "cons_fst p x = map_option (\<lambda>(a, r). (p @ a, r)) x"

lemma hex4_length: "hex4 s = Some (u, r) \<Longrightarrow> length r < length s"
  by (induction s rule: hex4.induct) (auto split: if_splits)

lemma read_u_length: "read_u s = Some (u, r) \<Longrightarrow> length r < length s"
  by (auto simp: read_u_def dest!: hex4_length split: option.splits if_splits prod.splits)

text \<open>The text of a string literal after its opening quote, and what follows the closing one.\<close>

function read_str :: "string \<Rightarrow> (string \<times> string) option" where
  "read_str [] = None"
| "read_str (c # cs) =
     (if c = DQUOTE then Some ([], cs)
      else if c = BACKSLASH then
        (case cs of
           [] \<Rightarrow> None
         | e # r \<Rightarrow>
             if e = CHR ''u'' then
               (case read_u r of None \<Rightarrow> None | Some (u, r') \<Rightarrow> cons_fst (utf8_encode u) (read_str r'))
             else (case simple_escape e of None \<Rightarrow> None | Some x \<Rightarrow> cons_fst [x] (read_str r)))
      else if c < CHR '' '' then None
      else cons_fst [c] (read_str cs))"
  by pat_completeness auto
termination
  by (relation "measure length") (auto dest: read_u_length)

definition digits_val :: "string \<Rightarrow> nat" where
  "digits_val ds = foldl (\<lambda>n c. 10 * n + (of_char c - 48)) 0 ds"

text \<open>A number: \<^verbatim>\<open>-?(0|[1-9][0-9]*)(\.[0-9]+)?([eE][-+]?[0-9]+)?\<close>; an \<open>int\<close> without the two optional
  parts, else a \<open>float\<close>.\<close>

definition frac_part :: "string \<Rightarrow> string" where
  "frac_part s =
     (case s of
        c # r \<Rightarrow> if c = CHR ''.'' \<and> takeWhile is_digit r \<noteq> [] then c # takeWhile is_digit r else []
      | [] \<Rightarrow> [])"

definition exp_part :: "string \<Rightarrow> string" where
  "exp_part s =
     (case s of
        c # r \<Rightarrow>
          let sg = (case r of d # _ \<Rightarrow> if d = CHR ''+'' \<or> d = CHR ''-'' then [d] else [] | [] \<Rightarrow> []);
              ds = takeWhile is_digit (drop (length sg) r)
          in if (c = CHR ''e'' \<or> c = CHR ''E'') \<and> ds \<noteq> [] then c # sg @ ds else []
      | [] \<Rightarrow> [])"

definition int_part :: "string \<Rightarrow> string" where
  "int_part s = (case s of c # _ \<Rightarrow> if c = CHR ''0'' then [c] else takeWhile is_digit s | [] \<Rightarrow> [])"

definition sign_part :: "string \<Rightarrow> string" where
  "sign_part s = (case s of c # _ \<Rightarrow> if c = CHR ''-'' then [c] else [] | [] \<Rightarrow> [])"

text \<open>Sign, integer part, fraction, exponent, and the rest of the text.\<close>

definition number_parts :: "string \<Rightarrow> string \<times> string \<times> string \<times> string \<times> string" where
  "number_parts s =
     (let sg = sign_part s;
          s1 = drop (length sg) s; ip = int_part s1;
          s2 = drop (length ip) s1; fp = frac_part s2;
          s3 = drop (length fp) s2; ep = exp_part s3
      in (sg, ip, fp, ep, drop (length ep) s3))"

definition read_number :: "string \<Rightarrow> (json \<times> string) option" where
  "read_number s =
     (case number_parts s of (sg, ip, fp, ep, r) \<Rightarrow>
        if ip = [] then None
        else if fp = [] \<and> ep = []
        then Some (JInt (if sg = [] then int (digits_val ip) else - int (digits_val ip)), r)
        else Some (JFloat (sg @ ip @ fp @ ep), r))"

definition read_const :: "string \<Rightarrow> (json \<times> string) option" where
  "read_const s =
     (if prefix ''null'' s then Some (JNull, drop 4 s)
      else if prefix ''true'' s then Some (JBool True, drop 4 s)
      else if prefix ''false'' s then Some (JBool False, drop 5 s)
      else if prefix ''NaN'' s then Some (JFloat ''nan'', drop 3 s)
      else if prefix ''Infinity'' s then Some (JFloat ''inf'', drop 8 s)
      else if prefix ''-Infinity'' s then Some (JFloat ''-inf'', drop 9 s)
      else read_number s)"

text \<open>Values, the elements of an array after its bracket, the members of an object after its
  brace. Every second call consumes a character, so twice the length is fuel enough.\<close>

fun read_value :: "nat \<Rightarrow> string \<Rightarrow> (json \<times> string) option"
and read_elems :: "nat \<Rightarrow> string \<Rightarrow> (json list \<times> string) option"
and read_members :: "nat \<Rightarrow> string \<Rightarrow> ((string \<times> json) list \<times> string) option" where
  "read_value 0 s = None"
| "read_value (Suc n) s =
     (case s of
        [] \<Rightarrow> None
      | c # r \<Rightarrow>
          if c = DQUOTE then map_option (\<lambda>(t, r'). (JStr t, r')) (read_str r)
          else if c = CHR ''['' then
            (case skip_ws r of
               [] \<Rightarrow> None
             | d # r' \<Rightarrow> if d = CHR '']'' then Some (JArr [], r')
                        else map_option (\<lambda>(xs, q). (JArr xs, q)) (read_elems n (d # r')))
          else if c = CHR ''{'' then
            (case skip_ws r of
               [] \<Rightarrow> None
             | d # r' \<Rightarrow> if d = CHR ''}'' then Some (JObj [], r')
                        else map_option (\<lambda>(kvs, q). (JObj (dict_of kvs), q)) (read_members n (d # r')))
          else read_const s)"
| "read_elems 0 s = None"
| "read_elems (Suc n) s =
     (case read_value n s of
        None \<Rightarrow> None
      | Some (v, r) \<Rightarrow>
          (case skip_ws r of
             [] \<Rightarrow> None
           | d # r' \<Rightarrow> if d = CHR '']'' then Some ([v], r')
                      else if d = CHR '','' then
                        map_option (\<lambda>(vs, q). (v # vs, q)) (read_elems n (skip_ws r'))
                      else None))"
| "read_members 0 s = None"
| "read_members (Suc n) s =
     (case s of
        [] \<Rightarrow> None
      | c # r \<Rightarrow>
          if c \<noteq> DQUOTE then None
          else (case read_str r of
             None \<Rightarrow> None
           | Some (k, r1) \<Rightarrow>
               (case skip_ws r1 of
                  [] \<Rightarrow> None
                | d # r2 \<Rightarrow>
                    if d \<noteq> CHR '':'' then None
                    else (case read_value n (skip_ws r2) of
                       None \<Rightarrow> None
                     | Some (v, r3) \<Rightarrow>
                         (case skip_ws r3 of
                            [] \<Rightarrow> None
                          | e # r4 \<Rightarrow> if e = CHR ''}'' then Some ([(k, v)], r4)
                                     else if e = CHR '','' then
                                       map_option (\<lambda>(kvs, q). ((k, v) # kvs, q)) (read_members n (skip_ws r4))
                                     else None)))))"

definition json_loads :: "str \<Rightarrow> json option" where
  "json_loads s =
     (case read_value (2 * length s + 2) (skip_ws s) of
        Some (v, r) \<Rightarrow> if skip_ws r = [] then Some v else None
      | None \<Rightarrow> None)"

section \<open>Writing\<close>

record json_style =
  item_sep :: string
  key_sep :: string
  indent_by :: "nat option"

text \<open>The styles of the scripts: \<open>separators=(",", ":")\<close>, the default, and \<open>indent=n\<close>.\<close>

definition compact_style :: json_style where
  "compact_style = \<lparr>item_sep = '','', key_sep = '':'', indent_by = None\<rparr>"

definition default_style :: json_style where
  "default_style = \<lparr>item_sep = '', '', key_sep = '': '', indent_by = None\<rparr>"

definition indent_style :: "nat \<Rightarrow> json_style" where
  "indent_style n = \<lparr>item_sep = '','', key_sep = '': '', indent_by = Some n\<rparr>"

text \<open>The code point at the start of a text, for the escapes beyond ASCII.\<close>

definition decode_point :: "bytes \<Rightarrow> nat" where
  "decode_point bs =
     (case map of_char bs of
        [a] \<Rightarrow> a
      | [a, b] \<Rightarrow> (a - 0xC0) * 64 + (b - 0x80)
      | [a, b, c] \<Rightarrow> (a - 0xE0) * 4096 + (b - 0x80) * 64 + (c - 0x80)
      | [a, b, c, d] \<Rightarrow> (a - 0xF0) * 262144 + (b - 0x80) * 4096 + (c - 0x80) * 64 + (d - 0x80)
      | _ \<Rightarrow> 0)"

definition u_escape :: "nat \<Rightarrow> string" where
  "u_escape n =
     [BACKSLASH, CHR ''u'', hex_digit (n div 4096 mod 16), hex_digit (n div 256 mod 16),
      hex_digit (n div 16 mod 16), hex_digit (n mod 16)]"

definition escape_point :: "nat \<Rightarrow> string" where
  "escape_point n =
     (if n = 34 then [BACKSLASH, DQUOTE] else if n = 92 then [BACKSLASH, BACKSLASH]
      else if n = 10 then [BACKSLASH, CHR ''n''] else if n = 13 then [BACKSLASH, CHR ''r'']
      else if n = 9 then [BACKSLASH, CHR ''t''] else if n = 12 then [BACKSLASH, CHR ''f'']
      else if n = 8 then [BACKSLASH, CHR ''b'']
      else if 32 \<le> n \<and> n \<le> 126 then [char_of n]
      else if n < 0x10000 then u_escape n
      else u_escape (0xD800 + (n - 0x10000) div 1024) @ u_escape (0xDC00 + (n - 0x10000) mod 1024))"

function escape_text :: "str \<Rightarrow> string" where
  "escape_text s =
     (if s = [] then []
      else escape_point (decode_point (take (snd (utf8_step s)) s)) @ escape_text (drop (snd (utf8_step s)) s))"
  by pat_completeness auto
termination
  by (relation "measure length") (use utf8_step_pos in auto)

declare escape_text.simps [simp del]

definition dumps_str :: "str \<Rightarrow> string" where
  "dumps_str s = DQUOTE # escape_text s @ [DQUOTE]"

definition nl_indent :: "json_style \<Rightarrow> nat \<Rightarrow> string" where
  "nl_indent st level =
     (case indent_by st of None \<Rightarrow> [] | Some n \<Rightarrow> NL # replicate (n * level) CHR '' '')"

fun dumps_at :: "json_style \<Rightarrow> nat \<Rightarrow> json \<Rightarrow> string" where
  "dumps_at st l JNull = ''null''"
| "dumps_at st l (JBool b) = (if b then ''true'' else ''false'')"
| "dumps_at st l (JInt i) = dec_int i"
| "dumps_at st l (JFloat s) =
     (if s = ''nan'' then ''NaN'' else if s = ''inf'' then ''Infinity''
      else if s = ''-inf'' then ''-Infinity'' else s)"
| "dumps_at st l (JStr s) = dumps_str s"
| "dumps_at st l (JArr xs) =
     (if xs = [] then ''[]''
      else ''['' @ nl_indent st (Suc l)
           @ join (item_sep st @ nl_indent st (Suc l)) (map (dumps_at st (Suc l)) xs)
           @ nl_indent st l @ '']'')"
| "dumps_at st l (JObj kvs) =
     (if kvs = [] then ''{}''
      else ''{'' @ nl_indent st (Suc l)
           @ join (item_sep st @ nl_indent st (Suc l))
               (map (\<lambda>(k, v). dumps_str k @ key_sep st @ dumps_at st (Suc l) v) kvs)
           @ nl_indent st l @ ''}'')"

definition json_dumps :: "json_style \<Rightarrow> json \<Rightarrow> string" where
  "json_dumps st v = dumps_at st 0 v"

text \<open>\<open>sort_keys=True\<close>: the members of every object in the order of their keys.\<close>

fun sort_keys :: "json \<Rightarrow> json" where
  "sort_keys (JArr xs) = JArr (map sort_keys xs)"
| "sort_keys (JObj kvs) = JObj (sort_key fst (map (\<lambda>(k, v). (k, sort_keys v)) kvs))"
| "sort_keys v = v"

section \<open>Round trip\<close>

subsection \<open>Strings\<close>

lemma char_nums:
  "char_of (34 :: nat) = DQUOTE" "char_of (92 :: nat) = BACKSLASH" "char_of (10 :: nat) = NL"
  "char_of (13 :: nat) = CR" "char_of (9 :: nat) = TAB" "char_of (12 :: nat) = CHR 0x0C"
  "char_of (8 :: nat) = CHR 0x08" "char_of (48 :: nat) = CHR ''0''"
  by code_simp+

lemma hex_digit_cases:
  assumes "d < 16"
  shows "is_hex (hex_digit d) \<and> hex_val (hex_digit d) = d"
proof (cases "d < 10")
  case True
  then have "is_digit (char_of (48 + d))" by (simp add: char_class_defs)
  with True show ?thesis by (simp add: hex_digit_def hex_val_def is_hex_def)
next
  case False
  let ?c = "char_of (87 + d) :: char"
  have n: "of_char ?c = (87 + d :: nat)" using assms by simp
  then have "\<not> is_digit ?c" "\<not> is_upper ?c" "in_range CHR ''a'' CHR ''f'' ?c"
    using assms False by (simp_all add: char_class_defs)
  with False n show ?thesis by (simp add: hex_digit_def hex_val_def is_hex_def to_lower_def)
qed

lemma hex_val_hex_digit [simp]: "d < 16 \<Longrightarrow> hex_val (hex_digit d) = d"
  by (simp add: hex_digit_cases)

lemma is_hex_hex_digit [simp]: "d < 16 \<Longrightarrow> is_hex (hex_digit d)"
  by (simp add: hex_digit_cases)

lemma read_u_escape:
  assumes "n < 0x80"
  shows "read_u (drop 2 (u_escape n) @ r) = Some (n, r)"
proof -
  have "n div 4096 mod 16 = 0" "n div 256 mod 16 = 0" "n div 16 mod 16 = n div 16" using assms by auto
  moreover have "n div 16 * 16 + n mod 16 = n" by simp
  moreover have "n div 16 < 16" using assms by simp
  ultimately show ?thesis using assms by (simp add: read_u_def u_escape_def)
qed

declare read_str.simps [simp del]

lemma read_str_escape:
  assumes "of_char c < (0x80 :: nat)"
  shows "read_str (escape_point (of_char c) @ r) = cons_fst [c] (read_str r)"
proof -
  have uesc: "u_escape n @ r = BACKSLASH # CHR ''u'' # drop 2 (u_escape n) @ r" for n r
    by (simp add: u_escape_def)

  consider "of_char c \<in> {34, 92, 10, 13, 9, 12, 8 :: nat}"
    | "of_char c \<notin> {34, 92, 10, 13, 9, 12, 8 :: nat}" "32 \<le> (of_char c :: nat)" "(of_char c :: nat) \<le> 126"
    | "of_char c \<notin> {34, 92, 10, 13, 9, 12, 8 :: nat}" "\<not> (32 \<le> (of_char c :: nat) \<and> (of_char c :: nat) \<le> 126)"
    by blast
  then show ?thesis
  proof cases
    case 1
    then have "char_of (of_char c :: nat) \<in> char_of ` {34, 92, 10, 13, 9, 12, 8 :: nat}" by (rule imageI)
    then have "c \<in> {DQUOTE, BACKSLASH, NL, CR, TAB, CHR 0x0C, CHR 0x08}" by (simp add: char_nums)
    then show ?thesis
      by (elim insertE emptyE) (simp_all add: escape_point_def read_str.simps(2) simple_escape_def)
  next
    case 2
    then have "c \<noteq> DQUOTE" "c \<noteq> BACKSLASH" "\<not> c < CHR '' ''" by (auto simp: less_char_def)
    with 2 show ?thesis by (simp add: escape_point_def read_str.simps)
  next
    case 3
    then have "escape_point (of_char c) = u_escape (of_char c)" using assms by (auto simp: escape_point_def)
    moreover have "read_str (BACKSLASH # CHR ''u'' # drop 2 (u_escape (of_char c)) @ r)
        = cons_fst (utf8_encode (of_char c)) (read_str r)"
      by (subst read_str.simps) (simp add: read_u_escape[OF assms])
    moreover have "utf8_encode (of_char c) = [c]" using assms by (simp add: utf8_encode_def)
    ultimately show ?thesis by (simp only: uesc)
  qed
qed

lemma escape_text_Cons:
  "of_char c < (0x80 :: nat) \<Longrightarrow> escape_text (c # s) = escape_point (of_char c) @ escape_text s"
  by (subst escape_text.simps) (simp add: utf8_step_def decode_point_def)

lemma read_str_text: "ascii s \<Longrightarrow> read_str (escape_text s @ DQUOTE # r) = Some (s, r)"
proof (induction s)
  case Nil
  then show ?case by (simp add: escape_text.simps read_str.simps)
next
  case (Cons c s)
  then have "of_char c < (0x80 :: nat)" "ascii s" by (auto simp: ascii_def)
  with Cons.IH show ?case by (simp add: escape_text_Cons read_str_escape cons_fst_def)
qed

subsection \<open>Numbers\<close>

text \<open>What may follow a number.\<close>

definition num_end :: "string \<Rightarrow> bool" where
  "num_end r \<longleftrightarrow> (r = [] \<or> \<not> is_digit (hd r) \<and> hd r \<notin> {CHR ''.'', CHR ''e'', CHR ''E'', CHR ''+'', CHR ''-''})"

lemma takeWhile_num_end: "num_end r \<Longrightarrow> takeWhile is_digit (s @ r) = takeWhile is_digit s"
  by (induction s) (cases r, auto simp: num_end_def)+

lemma int_part_end: "num_end r \<Longrightarrow> int_part (s @ r) = int_part s"
proof (cases s)
  case Nil
  assume "num_end r"
  moreover have "is_digit CHR ''0''" by (simp add: char_class_defs)
  ultimately show ?thesis using Nil by (cases r) (auto simp: int_part_def num_end_def)
next
  case (Cons c cs)
  assume "num_end r"
  from takeWhile_num_end[OF this, of s] Cons show ?thesis by (simp add: int_part_def)
qed

lemma frac_part_end: "num_end r \<Longrightarrow> frac_part (s @ r) = frac_part s"
  by (cases s; cases r) (auto simp: frac_part_def takeWhile_num_end num_end_def)

lemma exp_part_end:
  assumes "num_end r"
  shows "exp_part (s @ r) = exp_part s"
proof (cases s)
  case Nil
  with assms show ?thesis by (cases r) (auto simp: exp_part_def num_end_def Let_def)
next
  case (Cons c cs)
  let ?sg = "\<lambda>t. case t of d # _ \<Rightarrow> if d = CHR ''+'' \<or> d = CHR ''-'' then [d] else [] | [] \<Rightarrow> []"
  have sg: "?sg (cs @ r) = ?sg cs"
    using assms by (cases cs; cases r) (auto simp: num_end_def)
  have "length (?sg cs) \<le> length cs" by (cases cs) auto
  then have "drop (length (?sg cs)) (cs @ r) = drop (length (?sg cs)) cs @ r" by simp
  then show ?thesis
    using sg takeWhile_num_end[OF assms] by (simp add: exp_part_def Cons Let_def)
qed

lemma int_part_length: "length (int_part s) \<le> length s"
  by (cases s) (auto simp: int_part_def length_takeWhile_le)

lemma frac_part_length: "length (frac_part s) \<le> length s"
  by (cases s) (auto simp: frac_part_def length_takeWhile_le)

lemma exp_part_length: "length (exp_part s) \<le> length s"
proof (cases s)
  case (Cons c cs)
  have "length (takeWhile is_digit (drop n cs)) \<le> length cs - n" for n
    using length_takeWhile_le[of is_digit "drop n cs"] by simp
  from this[of 0] this[of 1] Cons show ?thesis
    by (cases cs) (auto simp: exp_part_def Let_def)
qed (simp add: exp_part_def)

text \<open>A number read from a whole text is read the same in front of anything that ends it.\<close>

lemma read_number_end:
  assumes "read_number s = Some (v, [])" "num_end r"
  shows "read_number (s @ r) = Some (v, r)"
proof -
  let ?s1 = "drop (length (sign_part s)) s"
  let ?s2 = "drop (length (int_part ?s1)) ?s1"
  let ?s3 = "drop (length (frac_part ?s2)) ?s2"
  have sg: "sign_part (s @ r) = sign_part s"
    using assms(2) by (cases s; cases r) (auto simp: num_end_def sign_part_def)
  have l0: "length (sign_part s) \<le> length s" by (cases s) (auto simp: sign_part_def)
  have d1: "drop (length (sign_part s)) (s @ r) = ?s1 @ r" using l0 by simp
  have d2: "drop (length (int_part ?s1)) (?s1 @ r) = ?s2 @ r" using int_part_length[of ?s1] by simp
  have d3: "drop (length (frac_part ?s2)) (?s2 @ r) = ?s3 @ r" using frac_part_length[of ?s2] by simp
  have d4: "drop (length (exp_part ?s3)) (?s3 @ r) = drop (length (exp_part ?s3)) ?s3 @ r"
    using exp_part_length[of ?s3] by simp
  have parts: "number_parts (s @ r) = (case number_parts s of (sg, ip, fp, ep, q) \<Rightarrow> (sg, ip, fp, ep, q @ r))"
    unfolding number_parts_def Let_def sg d1 int_part_end[OF assms(2)] d2 frac_part_end[OF assms(2)] d3
      exp_part_end[OF assms(2)] d4 by simp
  obtain sg ip fp ep q where "number_parts s = (sg, ip, fp, ep, q)" by (cases "number_parts s") auto
  with parts assms(1) show ?thesis by (auto simp: read_number_def split: if_splits)
qed

lemma digits_val_append: "digits_val (ds @ [c]) = 10 * digits_val ds + (of_char c - 48)"
  by (simp add: digits_val_def)

lemma digits_val_dec: "digits_val (dec n) = n"
proof (induction n rule: dec.induct)
  case (1 n)
  show ?case
  proof (cases "n < 10")
    case True
    then show ?thesis by (simp add: dec.simps[of n] digits_val_def of_digit_char)
  next
    case False
    with 1 show ?thesis by (simp add: dec.simps[of n] digits_val_append of_digit_char)
  qed
qed

lemma hd_dec: "0 < n \<Longrightarrow> hd (dec n) \<noteq> CHR ''0''"
proof (induction n rule: dec.induct)
  case (1 n)
  have "digit_char 0 = CHR ''0''" by (simp add: digit_char_def char_nums)
  then have z: "digit_char n = CHR ''0'' \<Longrightarrow> n < 10 \<Longrightarrow> n = 0"
    using digit_char_inj[of n 0] by simp
  show ?case
  proof (cases "n < 10")
    case True
    with 1 z show ?thesis by (auto simp: dec.simps[of n])
  next
    case False
    with 1 show ?thesis by (simp add: dec.simps[of n])
  qed
qed

lemma int_part_dec: "int_part (dec n) = dec n"
proof (cases "n = 0")
  case True
  then show ?thesis by (simp add: dec.simps int_part_def digit_char_def char_nums)
next
  case False
  then have "hd (dec n) \<noteq> CHR ''0''" by (simp add: hd_dec)
  moreover have "takeWhile is_digit (dec n) = dec n" using dec_digits by (simp add: takeWhile_eq_all_conv)
  ultimately show ?thesis by (cases "dec n") (auto simp: int_part_def)
qed

lemma dec_no_minus: "dec n \<noteq> CHR ''-'' # s"
  using dec_digits[of "CHR ''-''" n] by (auto simp: char_class_defs)

lemma read_number_dec_int: "read_number (dec_int i) = Some (JInt i, [])"
proof -
  have sg: "sign_part (dec n) = []" for n
    using dec_no_minus[of n] by (cases "dec n") (auto simp: sign_part_def)
  have neg: "sign_part (CHR ''-'' # s) = ''-''" for s by (simp add: sign_part_def)
  show ?thesis
    by (simp add: read_number_def number_parts_def dec_int_def Let_def sg neg int_part_dec frac_part_def
        exp_part_def digits_val_dec)
qed

subsection \<open>Values\<close>

definition printable :: "string \<Rightarrow> bool" where
  "printable s = list_all (\<lambda>c. c = NL \<or> (32 \<le> (of_char c :: nat) \<and> (of_char c :: nat) \<le> 126)) s"

lemma printable_simps [simp]:
  "printable []"
  "printable (c # s) \<longleftrightarrow> (c = NL \<or> 32 \<le> (of_char c :: nat) \<and> (of_char c :: nat) \<le> 126) \<and> printable s"
  "printable (s @ t) \<longleftrightarrow> printable s \<and> printable t"
  by (simp_all add: printable_def)

text \<open>The values the round trip is about: ASCII texts, and floats whose literal is a number with a
  fraction or an exponent.\<close>

fun plain_json :: "json \<Rightarrow> bool" where
  "plain_json (JFloat s) = (read_number s = Some (JFloat s, []) \<and> s \<notin> {''nan'', ''inf'', ''-inf''} \<and> printable s)"
| "plain_json (JStr s) = ascii s"
| "plain_json (JArr xs) = list_all plain_json xs"
| "plain_json (JObj kvs) = (distinct (map fst kvs) \<and> list_all (\<lambda>(k, v). ascii k \<and> plain_json v) kvs)"
| "plain_json _ = True"

text \<open>A style whose separators are a comma and a colon among white space.\<close>

definition style_ok :: "json_style \<Rightarrow> bool" where
  "style_ok st \<longleftrightarrow> (\<exists>a b. item_sep st = CHR '','' # a \<and> key_sep st = CHR '':'' # b
      \<and> list_all is_json_ws a \<and> list_all is_json_ws b)"

lemma styles_ok: "style_ok compact_style" "style_ok default_style" "style_ok (indent_style n)"
  by (simp_all add: style_ok_def compact_style_def default_style_def indent_style_def is_json_ws_def)

lemma nl_indent_ws: "list_all is_json_ws (nl_indent st l)"
  by (auto simp: nl_indent_def is_json_ws_def list_all_iff split: option.splits)

lemma skip_ws_append: "list_all is_json_ws w \<Longrightarrow> skip_ws (w @ s) = skip_ws s"
  by (induction w) (auto simp: skip_ws_def)

lemma skip_ws_Cons: "\<not> is_json_ws c \<Longrightarrow> skip_ws (c # s) = c # s"
  by (simp add: skip_ws_def)

lemma punct_not_ws [simp]:
  "\<not> is_json_ws CHR '',''" "\<not> is_json_ws CHR '']''" "\<not> is_json_ws CHR ''}''" "\<not> is_json_ws CHR '':''"
  "\<not> is_json_ws DQUOTE" "\<not> is_json_ws CHR ''[''" "\<not> is_json_ws CHR ''{''"
  by (simp_all add: is_json_ws_def)

text \<open>The first character of a printed value.\<close>

definition value_start :: "char \<Rightarrow> bool" where
  "value_start c \<longleftrightarrow> \<not> is_json_ws c \<and> c \<noteq> CHR '']'' \<and> c \<noteq> CHR ''}''"

lemma number_start:
  assumes "read_number (c # s) \<noteq> None"
  shows "c = CHR ''-'' \<or> is_digit c"
proof (rule ccontr)
  assume h: "\<not> (c = CHR ''-'' \<or> is_digit c)"
  moreover have "is_digit CHR ''0''" by (simp add: char_class_defs)
  ultimately have "int_part (c # s) = []" by (auto simp: int_part_def)
  with h have "fst (snd (number_parts (c # s))) = []" by (simp add: number_parts_def sign_part_def Let_def)
  then show False using assms by (auto simp: read_number_def split: prod.splits)
qed

lemma start_cases:
  assumes "c = CHR ''-'' \<or> is_digit c"
  shows "value_start c" "c \<noteq> DQUOTE" "c \<noteq> CHR ''[''" "c \<noteq> CHR ''{''" "c \<noteq> CHR ''n''" "c \<noteq> CHR ''t''"
    "c \<noteq> CHR ''f''" "c \<noteq> CHR ''N''" "c \<noteq> CHR ''I''"
  using assms by (auto simp: value_start_def is_json_ws_def char_class_defs)

lemma number_minus:
  assumes "read_number (CHR ''-'' # s) \<noteq> None"
  shows "\<not> prefix ''Infinity'' s"
proof
  assume "prefix ''Infinity'' s"
  then have "int_part s = []" by (auto simp: prefix_def int_part_def char_class_defs)
  then have "fst (snd (number_parts (CHR ''-'' # s))) = []"
    by (simp add: number_parts_def sign_part_def Let_def)
  then show False using assms by (auto simp: read_number_def split: prod.splits)
qed

lemma read_value_number:
  assumes "read_number s = Some (v, [])" "num_end r"
  shows "read_value (Suc n) (s @ r) = Some (v, r) \<and> (\<exists>c t. s = c # t \<and> value_start c)"
proof -
  have "read_number [] = None" by (simp add: read_number_def number_parts_def int_part_def Let_def sign_part_def)
  with assms obtain c t where s: "s = c # t" by (cases s) auto
  have c: "c = CHR ''-'' \<or> is_digit c" by (rule number_start) (use s assms in auto)
  have num: "read_number (c # t @ r) = Some (v, r)" using read_number_end[OF assms] s by simp
  have "\<not> prefix ''-Infinity'' (c # t @ r)" using number_minus[of "t @ r"] num by auto
  then have "read_const (c # t @ r) = Some (v, r)"
    using num start_cases[OF c] unfolding read_const_def by (simp only: prefix_code) simp
  with start_cases[OF c] s show ?thesis by simp
qed

lemma num_end_ws: "list_all is_json_ws w \<Longrightarrow> c \<in> {CHR '','', CHR '']'', CHR ''}''} \<Longrightarrow> num_end (w @ c # r)"
  by (cases w) (auto simp: num_end_def is_json_ws_def char_class_defs)

lemma skip_ws_start: "list_all is_json_ws w \<Longrightarrow> value_start c \<Longrightarrow> skip_ws (w @ c # s) = c # s"
  by (simp add: skip_ws_append skip_ws_Cons value_start_def)

lemma read_elems_text:
  assumes val: "\<And>x n r. x \<in> set xs \<Longrightarrow> num_end r \<Longrightarrow> 2 * length (f x) \<le> n \<Longrightarrow> read_value n (f x @ r) = Some (x, r)"
    and start: "\<And>x. x \<in> set xs \<Longrightarrow> \<exists>c t. f x = c # t \<and> value_start c"
    and ws: "list_all is_json_ws a" "list_all is_json_ws w"
    and "xs \<noteq> []" "2 * length (join (CHR '','' # a) (map f xs)) + 1 \<le> n"
  shows "read_elems n (join (CHR '','' # a) (map f xs) @ w @ CHR '']'' # r) = Some (xs, r)"
  using val start assms(5,6)
proof (induction xs arbitrary: n)
  case (Cons x xs)
  obtain m where n: "n = Suc m" using Cons.prems(4) by (cases n) auto
  have lx: "2 * length (f x) \<le> m" using Cons.prems(4) n by (cases xs) auto
  show ?case
  proof (cases xs)
    case Nil
    have "read_value m (f x @ w @ CHR '']'' # r) = Some (x, w @ CHR '']'' # r)"
      by (rule Cons.prems(1)) (use lx num_end_ws[OF ws(2)] in auto)
    then show ?thesis by (simp add: Nil n skip_ws_append ws skip_ws_Cons)
  next
    case (Cons y ys)
    let ?rest = "join (CHR '','' # a) (map f xs) @ w @ CHR '']'' # r"
    have v: "read_value m (f x @ CHR '','' # a @ ?rest) = Some (x, CHR '','' # a @ ?rest)"
      by (rule Cons.prems(1)) (use lx num_end_ws[of "[]"] in auto)
    obtain c t where "f y = c # t" "value_start c" using Cons.prems(2)[of y] Cons by auto
    then have "skip_ws (a @ ?rest) = ?rest"
      using ws(1) Cons by (cases ys) (auto simp: skip_ws_start)
    moreover have "read_elems m ?rest = Some (xs, r)"
      by (rule Cons.IH) (use Cons.prems Cons n in auto)
    ultimately show ?thesis using v by (simp add: Cons n skip_ws_Cons)
  qed
qed simp

lemma read_members_text:
  assumes val: "\<And>k v n r. (k, v) \<in> set kvs \<Longrightarrow> num_end r \<Longrightarrow> 2 * length (g v) \<le> n \<Longrightarrow>
        read_value n (g v @ r) = Some (v, r)"
    and start: "\<And>k v. (k, v) \<in> set kvs \<Longrightarrow> \<exists>c t. g v = c # t \<and> value_start c"
    and key: "\<And>k v. (k, v) \<in> set kvs \<Longrightarrow> ascii k"
    and ws: "list_all is_json_ws a" "list_all is_json_ws b" "list_all is_json_ws w"
    and "kvs \<noteq> []"
    and "2 * length (join (CHR '','' # a) (map (\<lambda>(k, v). dumps_str k @ CHR '':'' # b @ g v) kvs)) + 1 \<le> n"
  shows "read_members n (join (CHR '','' # a) (map (\<lambda>(k, v). dumps_str k @ CHR '':'' # b @ g v) kvs)
      @ w @ CHR ''}'' # r) = Some (kvs, r)"
  using val start key assms(7,8)
proof (induction kvs arbitrary: n)
  case (Cons kv kvs)
  obtain k v where kv: "kv = (k, v)" by force
  let ?f = "\<lambda>(k, v). dumps_str k @ CHR '':'' # b @ g v"
  obtain m where n: "n = Suc m" using Cons.prems(5) by (cases n) auto
  have lx: "2 * length (g v) \<le> m" using Cons.prems(5) n kv by (cases kvs) auto
  have str: "read_str (escape_text k @ DQUOTE # q) = Some (k, q)" for q
    using Cons.prems(3) kv by (auto intro: read_str_text)
  from Cons.prems(2)[of k v] kv obtain c t where "g v = c # t" "value_start c" by auto
  then have sk: "skip_ws (b @ g v @ q) = g v @ q" for q
    using ws(2) by (simp add: skip_ws_start)
  show ?case
  proof (cases kvs)
    case Nil
    have "read_value m (g v @ w @ CHR ''}'' # r) = Some (v, w @ CHR ''}'' # r)"
      by (rule Cons.prems(1)) (use lx num_end_ws[OF ws(3)] kv in auto)
    then show ?thesis
      by (simp add: Nil n kv dumps_str_def str skip_ws_append ws skip_ws_Cons sk)
  next
    case (Cons y ys)
    let ?rest = "join (CHR '','' # a) (map ?f kvs) @ w @ CHR ''}'' # r"
    have rv: "read_value m (g v @ CHR '','' # a @ ?rest) = Some (v, CHR '','' # a @ ?rest)"
      by (rule Cons.prems(1)) (use lx num_end_ws[of "[]"] kv in auto)
    have "\<exists>t. ?rest = DQUOTE # t"
      using Cons by (cases ys; cases y) (auto simp: dumps_str_def)
    then have "skip_ws (a @ ?rest) = ?rest"
      using ws(1) by (auto simp: skip_ws_append skip_ws_Cons)
    moreover have "read_members m ?rest = Some (kvs, r)"
    proof (rule Cons.IH)
      show "2 * length (join (CHR '','' # a) (map ?f kvs)) + 1 \<le> m"
        using Cons.prems(5) Cons n kv by simp
    next
      fix k v n q assume "(k, v) \<in> set kvs" "num_end q" "2 * length (g v) \<le> n"
      then show "read_value n (g v @ q) = Some (v, q)" using Cons.prems(1)[of k v q n] by simp
    next
      fix k v assume "(k, v) \<in> set kvs"
      then show "\<exists>c t. g v = c # t \<and> value_start c" "ascii k"
        using Cons.prems(2)[of k v] Cons.prems(3)[of k v] by simp_all
    qed (simp add: Cons)
    moreover have "?f kv @ CHR '','' # a @ ?rest =
        DQUOTE # escape_text k @ DQUOTE # CHR '':'' # b @ g v @ CHR '','' # a @ ?rest"
      by (simp add: kv dumps_str_def)
    ultimately show ?thesis using rv
      by (simp add: Cons n skip_ws_Cons kv dumps_str_def str sk)
  qed
qed simp

definition reads_back :: "string \<Rightarrow> json \<Rightarrow> bool" where
  "reads_back s v \<longleftrightarrow> (\<exists>c t. s = c # t \<and> value_start c) \<and>
     (\<forall>n r. num_end r \<longrightarrow> 2 * length s \<le> n \<longrightarrow> read_value n (s @ r) = Some (v, r))"

lemma reads_backI:
  assumes "s \<noteq> []" "value_start (hd s)"
    and "\<And>n r. num_end r \<Longrightarrow> 2 * length s \<le> Suc n \<Longrightarrow> read_value (Suc n) (s @ r) = Some (v, r)"
  shows "reads_back s v"
proof -
  have "read_value n (s @ r) = Some (v, r)" if "num_end r" "2 * length s \<le> n" for n r
    using assms that by (cases n) auto
  then show ?thesis using assms(1,2) by (cases s) (auto simp: reads_back_def)
qed

lemma reads_back_number:
  assumes "read_number s = Some (v, [])"
  shows "reads_back s v"
proof (rule reads_backI)
  have "num_end []" by (simp add: num_end_def)
  from read_value_number[OF assms this, of 0] obtain c t where "s = c # t" "value_start c" by blast
  then show "s \<noteq> []" "value_start (hd s)" by simp_all
qed (use read_value_number[OF assms] in blast)

lemma reads_back_arr:
  assumes "style_ok st" "xs \<noteq> []" "\<And>x. x \<in> set xs \<Longrightarrow> reads_back (dumps_at st (Suc l) x) x"
  shows "reads_back (dumps_at st l (JArr xs)) (JArr xs)"
proof -
  obtain a where a: "item_sep st = CHR '','' # a" "list_all is_json_ws a"
    using assms(1) by (auto simp: style_ok_def)
  let ?a = "a @ nl_indent st (Suc l)"
  let ?body = "join (CHR '','' # ?a) (map (dumps_at st (Suc l)) xs)"
  have tx: "dumps_at st l (JArr xs) = CHR ''['' # nl_indent st (Suc l) @ ?body @ nl_indent st l @ '']''"
    using assms(2) a by simp
  obtain x ys where xs: "xs = x # ys" using assms(2) by (cases xs) auto
  from assms(3)[of x] xs obtain c t where c: "dumps_at st (Suc l) x = c # t" "value_start c"
    by (auto simp: reads_back_def)
  then have body: "\<exists>t. ?body = c # t" using xs by (cases ys) auto
  show ?thesis
  proof (rule reads_backI)
    fix n r
    assume n: "2 * length (dumps_at st l (JArr xs)) \<le> Suc n"
    have "read_elems n (?body @ nl_indent st l @ CHR '']'' # r) = Some (xs, r)"
      by (rule read_elems_text)
        (use assms a n tx in \<open>auto simp: reads_back_def nl_indent_ws list_all_append\<close>)
    moreover have "skip_ws (nl_indent st (Suc l) @ ?body @ q) = ?body @ q" for q
      using body c by (auto simp: skip_ws_start nl_indent_ws)
    ultimately show "read_value (Suc n) (dumps_at st l (JArr xs) @ r) = Some (JArr xs, r)"
      using body c unfolding tx by (auto simp: value_start_def)
  qed (simp_all add: tx value_start_def is_json_ws_def del: dumps_at.simps)
qed

lemma reads_back_obj:
  assumes "style_ok st" "kvs \<noteq> []" "distinct (map fst kvs)"
    and "\<And>k v. (k, v) \<in> set kvs \<Longrightarrow> ascii k \<and> reads_back (dumps_at st (Suc l) v) v"
  shows "reads_back (dumps_at st l (JObj kvs)) (JObj kvs)"
proof -
  obtain a b where a: "item_sep st = CHR '','' # a" "list_all is_json_ws a"
      "key_sep st = CHR '':'' # b" "list_all is_json_ws b"
    using assms(1) by (auto simp: style_ok_def)
  let ?a = "a @ nl_indent st (Suc l)"
  let ?body = "join (CHR '','' # ?a) (map (\<lambda>(k, v). dumps_str k @ CHR '':'' # b @ dumps_at st (Suc l) v) kvs)"
  have tx: "dumps_at st l (JObj kvs) = CHR ''{'' # nl_indent st (Suc l) @ ?body @ nl_indent st l @ ''}''"
    using assms(2) a by simp
  obtain k v ys where kvs: "kvs = (k, v) # ys" using assms(2) by (cases kvs) auto
  then have body: "\<exists>t. ?body = DQUOTE # t" by (cases ys) (auto simp: dumps_str_def)
  show ?thesis
  proof (rule reads_backI)
    fix n r
    assume n: "2 * length (dumps_at st l (JObj kvs)) \<le> Suc n"
    have "read_members n (?body @ nl_indent st l @ CHR ''}'' # r) = Some (kvs, r)"
      by (rule read_members_text)
        (use assms a n tx in \<open>auto simp: reads_back_def nl_indent_ws list_all_append\<close>)
    moreover have "skip_ws (nl_indent st (Suc l) @ ?body @ q) = ?body @ q" for q
      using body by (auto simp: skip_ws_start nl_indent_ws value_start_def)
    ultimately show "read_value (Suc n) (dumps_at st l (JObj kvs) @ r) = Some (JObj kvs, r)"
      using body assms(3) unfolding tx by (auto simp: dict_of_distinct)
  qed (simp_all add: tx value_start_def is_json_ws_def del: dumps_at.simps)
qed

theorem read_dumps:
  assumes st: "style_ok st"
  shows "plain_json v \<Longrightarrow> reads_back (dumps_at st l v) v"
proof (induction v arbitrary: l)
  case JNull
  show ?case by (rule reads_backI) (simp_all add: value_start_def is_json_ws_def read_const_def)
next
  case (JBool b)
  show ?case
    by (cases b) (auto intro!: reads_backI simp: value_start_def is_json_ws_def read_const_def)
next
  case (JInt i)
  show ?case by (simp add: reads_back_number read_number_dec_int)
next
  case (JFloat s)
  then show ?case by (simp add: reads_back_number)
next
  case (JStr s)
  then show ?case
    by (auto intro!: reads_backI simp: dumps_str_def value_start_def read_str_text)
next
  case (JArr xs)
  show ?case
  proof (cases "xs = []")
    case True
    then show ?thesis by (auto intro!: reads_backI simp: value_start_def is_json_ws_def skip_ws_def)
  next
    case False
    show ?thesis by (rule reads_back_arr[OF st False]) (use JArr in \<open>auto simp: list_all_iff\<close>)
  qed
next
  case (JObj kvs)
  show ?case
  proof (cases "kvs = []")
    case True
    then show ?thesis by (auto intro!: reads_backI simp: value_start_def is_json_ws_def skip_ws_def)
  next
    case False
    show ?thesis by (rule reads_back_obj[OF st False]) (use JObj in \<open>auto simp: list_all_iff\<close>)
  qed
qed

lemma ascii_append [simp]: "ascii (s @ t) \<longleftrightarrow> ascii s \<and> ascii t"
  by (auto simp: ascii_def)

lemma ascii_Cons [simp]: "ascii (c # s) \<longleftrightarrow> of_char c < (0x80 :: nat) \<and> ascii s"
  by (auto simp: ascii_def)

lemma ascii_Nil [simp]: "ascii []"
  by (simp add: ascii_def)

text \<open>The printed text is ASCII and has no carriage return: its bytes are its characters, and text
  mode leaves them alone.\<close>

lemma printable_join: "printable sep \<Longrightarrow> \<forall>x\<in>set xs. printable x \<Longrightarrow> printable (join sep xs)"
  by (auto simp: printable_def list_all_iff dest!: set_join)

lemma printable_dec: "printable (dec n)"
  by (auto simp: printable_def list_all_iff char_class_defs dest!: dec_digits)

lemma printable_dec_int: "printable (dec_int i)"
  by (simp add: dec_int_def printable_dec)

lemma printable_hex_digit:
  "d < 16 \<Longrightarrow> 32 \<le> (of_char (hex_digit d) :: nat) \<and> (of_char (hex_digit d) :: nat) \<le> 126"
  by (simp add: hex_digit_def)

lemma printable_u_escape: "printable (u_escape n)"
  by (simp add: u_escape_def printable_hex_digit)

lemma printable_escape_point: "printable (escape_point n)"
  by (simp add: escape_point_def printable_u_escape)

lemma printable_escape_text: "printable (escape_text s)"
proof (induction s rule: escape_text.induct)
  case (1 s)
  then show ?case
    by (cases "s = []")
      (simp_all add: escape_text.simps[of s] escape_text.simps[of "[]"] printable_escape_point)
qed

lemma printable_dumps_str: "printable (dumps_str s)"
  by (simp add: dumps_str_def printable_escape_text)

lemma printable_nl_indent: "printable (nl_indent st l)"
  by (auto simp: nl_indent_def printable_def list_all_iff split: option.splits)

lemma printable_dumps_at:
  "printable (item_sep st) \<Longrightarrow> printable (key_sep st) \<Longrightarrow> plain_json v \<Longrightarrow> printable (dumps_at st l v)"
proof (induction v arbitrary: l)
  case (JArr xs)
  have "printable (join (item_sep st @ nl_indent st (Suc l)) (map (dumps_at st (Suc l)) xs))"
    using JArr by (intro printable_join) (auto simp: printable_nl_indent list_all_iff)
  then show ?case by (simp add: printable_nl_indent)
next
  case (JObj kvs)
  have "\<forall>x\<in>set (map (\<lambda>(k, v). dumps_str k @ key_sep st @ dumps_at st (Suc l) v) kvs). printable x"
    using JObj by (auto simp: printable_dumps_str list_all_iff)
  then have "printable (join (item_sep st @ nl_indent st (Suc l))
      (map (\<lambda>(k, v). dumps_str k @ key_sep st @ dumps_at st (Suc l) v) kvs))"
    using JObj.prems by (intro printable_join) (simp_all add: printable_nl_indent)
  then show ?case by (simp add: printable_nl_indent)
qed (simp_all add: printable_dec_int printable_dumps_str)

lemma style_printable:
  "printable (item_sep compact_style)" "printable (key_sep compact_style)"
  "printable (item_sep default_style)" "printable (key_sep default_style)"
  "printable (item_sep (indent_style n))" "printable (key_sep (indent_style n))"
  by (simp_all add: compact_style_def default_style_def indent_style_def)

lemma printable_dumps:
  "plain_json v \<Longrightarrow> printable (json_dumps compact_style v)"
  "plain_json v \<Longrightarrow> printable (json_dumps default_style v)"
  "plain_json v \<Longrightarrow> printable (json_dumps (indent_style n) v)"
  unfolding json_dumps_def by (simp_all add: printable_dumps_at style_printable)

lemma printable_ascii: "printable s \<Longrightarrow> ascii s"
  by (induction s) auto

lemma printable_not_cr: "printable s \<Longrightarrow> CR \<notin> set s"
  by (induction s) auto

lemma printable_no_cr: "printable s \<Longrightarrow> universal_newlines s = s"
  by (rule universal_newlines_id[OF printable_not_cr])

lemma printable_valid: "printable s \<Longrightarrow> decode_strict s = Some s"
  by (simp add: decode_strict_def ascii_valid printable_ascii)

text \<open>A file that holds a printable text is read as that text.\<close>

lemma read_text_printable:
  "read_bytes fs p = Some s \<Longrightarrow> printable s \<Longrightarrow> read_text fs p = Some s"
  by (simp add: read_text_def printable_valid printable_no_cr)

text \<open>What the printer writes is read back, also with a newline after it.\<close>

theorem loads_dumps:
  assumes "style_ok st" "plain_json v" "list_all is_json_ws w"
  shows "json_loads (json_dumps st v @ w) = Some v"
proof -
  from read_dumps[OF assms(1,2), of 0] obtain c t where
    c: "dumps_at st 0 v = c # t" "value_start c" and
    rd: "\<And>n r. num_end r \<Longrightarrow> 2 * length (dumps_at st 0 v) \<le> n \<Longrightarrow> read_value n (dumps_at st 0 v @ r) = Some (v, r)"
    unfolding reads_back_def by blast
  have sk: "skip_ws (dumps_at st 0 v @ w) = dumps_at st 0 v @ w"
    using c by (simp add: skip_ws_Cons value_start_def)
  have "num_end w" using assms(3) by (cases w) (auto simp: num_end_def is_json_ws_def char_class_defs)
  from rd[OF this, of "2 * length (dumps_at st 0 v @ w) + 2"] skip_ws_append[OF assms(3), of "[]"]
  show ?thesis by (simp add: json_loads_def json_dumps_def sk) (simp add: skip_ws_def)
qed

section \<open>What is read is well formed\<close>

lemma set_dict_set: "set (dict_set d k v) \<subseteq> insert (k, v) (set d)"
  by (induction d k v rule: dict_set.induct) auto

lemma set_dict_of: "set (dict_of kvs) \<subseteq> set kvs"
proof -
  have "set (foldl (\<lambda>d (k, v). dict_set d k v) d kvs) \<subseteq> set d \<union> set kvs" for d
  proof (induction kvs arbitrary: d)
    case (Cons kv kvs)
    obtain k v where kv: "kv = (k, v)" by force
    show ?case using Cons.IH[of "dict_set d k v"] set_dict_set[of d k v] by (auto simp: kv)
  qed simp
  from this[of "[]"] show ?thesis by (simp add: dict_of_def)
qed

lemma wf_dict_of: "list_all (\<lambda>(k, v). wf_json v) kvs \<Longrightarrow> wf_json (JObj (dict_of kvs))"
  using set_dict_of[of kvs] distinct_dict_of[of kvs] by (auto simp: list_all_iff)

lemma wf_read_const: "read_const s = Some (v, r) \<Longrightarrow> wf_json v"
  by (auto simp: read_const_def read_number_def Let_def split: if_splits option.splits prod.splits)

lemma wf_read:
  "read_value n s = Some (v, r) \<Longrightarrow> wf_json v"
  "read_elems n s = Some (vs, r) \<Longrightarrow> list_all wf_json vs"
  "read_members n s = Some (kvs, r) \<Longrightarrow> list_all (\<lambda>(k, v). wf_json v) kvs"
proof (induction n s and n s and n s arbitrary: v r and vs r and kvs r rule: read_value_read_elems_read_members.induct)
  case (2 n s)
  then show ?case
    by (auto simp: wf_dict_of simp del: wf_json.simps(2) dest: wf_read_const split: list.splits if_splits)
      simp_all
next
  case (4 n s)
  then show ?case by (auto split: option.splits list.splits if_splits)
next
  case (6 n s)
  then show ?case by (auto split: option.splits list.splits if_splits)
qed auto

text \<open>Every document \<open>json.loads\<close> returns is well formed: at any depth, the keys of an object are
  distinct.\<close>

lemma loads_wf: "json_loads s = Some v \<Longrightarrow> wf_json v"
  unfolding json_loads_def
  by (cases "read_value (2 * length s + 2) (skip_ws s)") (auto simp del: read_value.simps dest: wf_read(1) split: if_splits)

end
