(* ===== verification/Sha256.thy ===== *)
theory Sha256
  imports Json "HOL-Library.Word"
begin

text \<open>
  \<open>hashlib.sha256(data).hexdigest()\<close>, written out from FIPS 180-4: padding, message schedule and
  compression on 32-bit words, whose addition wraps. The scripts only compare digests and read
  them as 64 hexadecimal characters, so the lemmas here are about the shape of a digest.
\<close>

unbundle bit_operations_syntax

type_synonym w32 = "32 word"

definition rotr32 :: "nat \<Rightarrow> w32 \<Rightarrow> w32" where
  "rotr32 n x = drop_bit n x OR push_bit (32 - n) x"

definition round_keys :: "w32 list" where
  "round_keys =
     [1116352408, 1899447441, 3049323471, 3921009573, 961987163, 1508970993,
      2453635748, 2870763221, 3624381080, 310598401, 607225278, 1426881987,
      1925078388, 2162078206, 2614888103, 3248222580, 3835390401, 4022224774,
      264347078, 604807628, 770255983, 1249150122, 1555081692, 1996064986,
      2554220882, 2821834349, 2952996808, 3210313671, 3336571891, 3584528711,
      113926993, 338241895, 666307205, 773529912, 1294757372, 1396182291,
      1695183700, 1986661051, 2177026350, 2456956037, 2730485921, 2820302411,
      3259730800, 3345764771, 3516065817, 3600352804, 4094571909, 275423344,
      430227734, 506948616, 659060556, 883997877, 958139571, 1322822218,
      1537002063, 1747873779, 1955562222, 2024104815, 2227730452, 2361852424,
      2428436474, 2756734187, 3204031479, 3329325298]"

definition initial_hash :: "w32 list" where
  "initial_hash =
     [1779033703, 3144134277, 1013904242, 2773480762, 1359893119, 2600822924, 528734635, 1541459225]"

definition small_sigma0 :: "w32 \<Rightarrow> w32" where
  "small_sigma0 x = rotr32 7 x XOR rotr32 18 x XOR drop_bit 3 x"

definition small_sigma1 :: "w32 \<Rightarrow> w32" where
  "small_sigma1 x = rotr32 17 x XOR rotr32 19 x XOR drop_bit 10 x"

definition big_sigma0 :: "w32 \<Rightarrow> w32" where
  "big_sigma0 x = rotr32 2 x XOR rotr32 13 x XOR rotr32 22 x"

definition big_sigma1 :: "w32 \<Rightarrow> w32" where
  "big_sigma1 x = rotr32 6 x XOR rotr32 11 x XOR rotr32 25 x"

definition choose_bits :: "w32 \<Rightarrow> w32 \<Rightarrow> w32 \<Rightarrow> w32" where
  "choose_bits x y z = (x AND y) XOR (NOT x AND z)"

definition majority :: "w32 \<Rightarrow> w32 \<Rightarrow> w32 \<Rightarrow> w32" where
  "majority x y z = (x AND y) XOR (x AND z) XOR (y AND z)"

text \<open>The schedule, latest word first: word \<open>t\<close> from the words 2, 7, 15 and 16 before it.\<close>

fun extend_schedule :: "nat \<Rightarrow> w32 list \<Rightarrow> w32 list" where
  "extend_schedule 0 ws = ws"
| "extend_schedule (Suc n) ws =
     extend_schedule n
       ((small_sigma1 (ws ! 1) + ws ! 6 + small_sigma0 (ws ! 14) + ws ! 15) # ws)"

definition sha_round :: "w32 list \<Rightarrow> w32 \<times> w32 \<Rightarrow> w32 list" where
  "sha_round st kw =
     (case (st, kw) of
        ([a, b, c, d, e, f, g, h], (k, w)) \<Rightarrow>
          let t1 = h + big_sigma1 e + choose_bits e f g + k + w;
              t2 = big_sigma0 a + majority a b c
          in [t1 + t2, a, b, c, d + t1, e, f, g]
      | _ \<Rightarrow> st)"

definition compress_block :: "w32 list \<Rightarrow> w32 list \<Rightarrow> w32 list" where
  "compress_block hs block =
     map2 (+) hs (foldl sha_round hs (zip round_keys (rev (extend_schedule 48 (rev block)))))"

fun be_words :: "bytes \<Rightarrow> w32 list" where
  "be_words (a # b # c # d # rest) =
     (((of_char a * 256 + of_char b) * 256 + of_char c) * 256 + of_char d) # be_words rest"
| "be_words _ = []"

definition be64 :: "nat \<Rightarrow> bytes" where
  "be64 n = map (\<lambda>i. char_of (int n div 256 ^ i mod 256)) [7, 6, 5, 4, 3, 2, 1, 0]"

definition sha_pad :: "bytes \<Rightarrow> bytes" where
  "sha_pad m = m @ CHR 0x80 # replicate ((119 - length m mod 64) mod 64) NUL @ be64 (8 * length m)"

fun sha_blocks :: "nat \<Rightarrow> w32 list \<Rightarrow> w32 list \<Rightarrow> w32 list" where
  "sha_blocks 0 hs ws = hs"
| "sha_blocks (Suc n) hs ws = sha_blocks n (compress_block hs (take 16 ws)) (drop 16 ws)"

definition hex_word :: "w32 \<Rightarrow> string" where
  "hex_word w = map (\<lambda>i. hex_digit (nat (uint w div 16 ^ i mod 16))) [7, 6, 5, 4, 3, 2, 1, 0]"

definition sha256 :: "bytes \<Rightarrow> string" where
  "sha256 m =
     (let ws = be_words (sha_pad m)
      in concat (map hex_word (sha_blocks (length ws div 16) initial_hash ws)))"

section \<open>The shape of a digest\<close>

text \<open>What \<open>re.fullmatch(r"[0-9a-f]{64}", s)\<close> says.\<close>

definition is_sha256_hex :: "string \<Rightarrow> bool" where
  "is_sha256_hex s \<longleftrightarrow> length s = 64 \<and> list_all (\<lambda>c. is_digit c \<or> in_range CHR ''a'' CHR ''f'' c) s"

lemma hex_digit_hex: "d < 16 \<Longrightarrow> is_digit (hex_digit d) \<or> in_range CHR ''a'' CHR ''f'' (hex_digit d)"
  by (auto simp: hex_digit_def char_class_defs)

lemma length_sha_round [simp]: "length (sha_round st kw) = length st"
  by (auto simp: sha_round_def Let_def split: list.splits prod.splits)

lemma length_foldl_sha_round [simp]: "length (foldl sha_round st kws) = length st"
  by (induction kws arbitrary: st) auto

lemma length_compress_block [simp]: "length (compress_block hs ws) = length hs"
  by (simp add: compress_block_def)

lemma length_sha_blocks [simp]: "length (sha_blocks n hs ws) = length hs"
  by (induction n arbitrary: hs ws) auto

theorem sha256_shape: "is_sha256_hex (sha256 m)"
proof -
  have hw: "length (hex_word w) = 8" "list_all (\<lambda>c. is_digit c \<or> in_range CHR ''a'' CHR ''f'' c) (hex_word w)" for w
  proof -
    have "nat (uint w div 16 ^ i mod 16) < 16" for i by (simp add: nat_less_iff)
    then show "length (hex_word w) = 8" "list_all (\<lambda>c. is_digit c \<or> in_range CHR ''a'' CHR ''f'' c) (hex_word w)"
      by (simp_all add: hex_word_def hex_digit_hex del: nat_mod_distrib)
  qed
  have "length (concat (map hex_word ws)) = 8 * length ws" for ws
    by (induction ws) (simp_all add: hw)
  moreover have "list_all (\<lambda>c. is_digit c \<or> in_range CHR ''a'' CHR ''f'' c) (concat (map hex_word ws))" for ws
    using hw(2) by (induction ws) simp_all
  ultimately show ?thesis
    by (simp add: is_sha256_hex_def sha256_def Let_def initial_hash_def)
qed

lemma sha256_not_Nil [simp]: "sha256 m \<noteq> []"
  using sha256_shape[of m] by (auto simp: is_sha256_hex_def)

lemma sha256_hex_char: "c \<in> set (sha256 m) \<Longrightarrow> is_digit c \<or> in_range CHR ''a'' CHR ''f'' c"
  using sha256_shape[of m] by (auto simp: is_sha256_hex_def list_all_iff)

lemma sha256_no_space: "c \<in> set (sha256 m) \<Longrightarrow> \<not> is_space c"
  using sha256_hex_char[of c m] by (auto simp: char_class_defs)

lemma lower_sha256 [simp]: "lower (sha256 m) = sha256 m"
proof -
  have "to_lower c = c" if "c \<in> set (sha256 m)" for c
    using sha256_hex_char[OF that] by (auto simp: to_lower_def char_class_defs)
  then show ?thesis by (simp add: lower_def map_idI)
qed

end
