(* ===== verification/Sha256Vectors.thy ===== *)
theory Sha256Vectors
  imports Sha256
begin

text \<open>
  Two of the published test vectors of SHA-256, evaluated in the kernel on the model of theory
  \<open>Sha256\<close>: the one-block message \<^verbatim>\<open>abc\<close> and the empty message. Each evaluation takes about two
  minutes, so only the witnesses that need two different digests import this theory.
\<close>

theorem sha256_abc:
  "sha256 ''abc'' = ''ba7816bf8f01cfea414140de5dae2223b00361a396177a9cb410ff61f20015ad''"
  by code_simp

theorem sha256_empty:
  "sha256 [] = ''e3b0c44298fc1c149afbf4c8996fb92427ae41e4649b934ca495991b7852b855''"
  by code_simp

lemma sha256_abc_empty: "sha256 ''abc'' \<noteq> sha256 []"
  unfolding sha256_abc sha256_empty by simp

end
