(* ===== verification/Regex.thy ===== *)
theory Regex
  imports Prelude
begin

text \<open>
  The part of Python's \<open>re\<close> the scripts use: classes, alternation, greedy repetition, and the
  zero-width assertions. \<open>rx_ends\<close> is the backtracking engine: it lists the places where a match
  from here can end, in the order the engine tries them, so the head of the list is the match
  Python returns. \<open>rx_matches\<close> is the declarative reading, and \<open>rx_ends_iff\<close> says that
  the two agree.

  A position is the text before it, reversed, and the text after it.
\<close>

section \<open>Patterns\<close>

text \<open>A class: negated or not, ignoring case or not, and its ranges.\<close>

record cclass =
  cc_neg :: bool
  cc_ci :: bool
  cc_ranges :: "(char \<times> char) list"

definition to_upper :: "char \<Rightarrow> char" where
  "to_upper c = (if is_lower c then char_of (of_char c - 32 :: nat) else c)"

definition in_ranges :: "(char \<times> char) list \<Rightarrow> char \<Rightarrow> bool" where
  "in_ranges rs c \<longleftrightarrow> list_ex (\<lambda>(lo, hi). in_range lo hi c) rs"

definition in_class :: "cclass \<Rightarrow> char \<Rightarrow> bool" where
  "in_class k c \<longleftrightarrow>
     cc_neg k \<noteq> (in_ranges (cc_ranges k) c \<or>
        cc_ci k \<and> (in_ranges (cc_ranges k) (to_lower c) \<or> in_ranges (cc_ranges k) (to_upper c)))"

datatype assertion =
    AtStart                   \<comment> \<open>\<^verbatim>\<open>\A\<close>\<close>
  | AtEnd                     \<comment> \<open>\<^verbatim>\<open>\Z\<close>\<close>
  | WordB                     \<comment> \<open>\<^verbatim>\<open>\b\<close>\<close>
  | Behind cclass             \<comment> \<open>\<^verbatim>\<open>(?<=[..])\<close>\<close>
  | NotBehind cclass          \<comment> \<open>\<^verbatim>\<open>(?<![..])\<close>\<close>
  | NotAhead cclass           \<comment> \<open>\<^verbatim>\<open>(?![..])\<close>\<close>
  | NotBehindText string      \<comment> \<open>\<^verbatim>\<open>(?<!text)\<close>\<close>

datatype rx =
    REps
  | RCls cclass
  | RSeq rx rx
  | RAlt rx rx
  | RStar rx
  | RAssert assertion

type_synonym pos = "string \<times> string"

definition opt_in :: "cclass \<Rightarrow> string \<Rightarrow> bool" where
  "opt_in k s = (case s of [] \<Rightarrow> False | c # _ \<Rightarrow> in_class k c)"

definition opt_word :: "string \<Rightarrow> bool" where
  "opt_word s = (case s of [] \<Rightarrow> False | c # _ \<Rightarrow> is_word c)"

fun holds_at :: "assertion \<Rightarrow> pos \<Rightarrow> bool" where
  "holds_at AtStart (pre, post) = (pre = [])"
| "holds_at AtEnd (pre, post) = (post = [])"
| "holds_at WordB (pre, post) = (opt_word pre \<noteq> opt_word post)"
| "holds_at (Behind k) (pre, post) = opt_in k pre"
| "holds_at (NotBehind k) (pre, post) = (\<not> opt_in k pre)"
| "holds_at (NotAhead k) (pre, post) = (\<not> opt_in k post)"
| "holds_at (NotBehindText t) (pre, post) = (\<not> prefix (rev t) pre)"

section \<open>The engine\<close>

text \<open>Greedy iteration; an iteration that consumes nothing ends the loop, so the length of the
  remaining text is fuel enough.\<close>

fun star_ends :: "nat \<Rightarrow> (pos \<Rightarrow> pos list) \<Rightarrow> pos \<Rightarrow> pos list" where
  "star_ends 0 f p = [p]"
| "star_ends (Suc n) f p =
     concat (map (\<lambda>q. if length (snd q) < length (snd p) then star_ends n f q else []) (f p)) @ [p]"

primrec rx_ends :: "rx \<Rightarrow> pos \<Rightarrow> pos list" where
  "rx_ends REps p = [p]"
| "rx_ends (RCls k) p =
     (case snd p of [] \<Rightarrow> [] | c # cs \<Rightarrow> if in_class k c then [(c # fst p, cs)] else [])"
| "rx_ends (RSeq r q) p = concat (map (rx_ends q) (rx_ends r p))"
| "rx_ends (RAlt r q) p = rx_ends r p @ rx_ends q p"
| "rx_ends (RStar r) p = star_ends (length (snd p)) (rx_ends r) p"
| "rx_ends (RAssert a) p = (if holds_at a p then [p] else [])"

text \<open>A match: the reversed text before it, the matched text, and the text after it.\<close>

definition matched :: "pos \<Rightarrow> pos \<Rightarrow> string" where
  "matched p q = take (length (snd p) - length (snd q)) (snd p)"

text \<open>\<open>re.match\<close> at a position, \<open>re.search\<close> from a position on.\<close>

definition match_at :: "rx \<Rightarrow> pos \<Rightarrow> pos option" where
  "match_at r p = (case rx_ends r p of [] \<Rightarrow> None | q # _ \<Rightarrow> Some q)"

fun search_from :: "rx \<Rightarrow> string \<Rightarrow> string \<Rightarrow> (pos \<times> pos) option" where
  "search_from r pre [] =
     (case match_at r (pre, []) of Some q \<Rightarrow> Some ((pre, []), q) | None \<Rightarrow> None)"
| "search_from r pre (c # cs) =
     (case match_at r (pre, c # cs) of
        Some q \<Rightarrow> Some ((pre, c # cs), q)
      | None \<Rightarrow> search_from r (c # pre) cs)"

definition rx_search :: "rx \<Rightarrow> string \<Rightarrow> bool" where
  "rx_search r s \<longleftrightarrow> search_from r [] s \<noteq> None"

definition rx_fullmatch :: "rx \<Rightarrow> string \<Rightarrow> bool" where
  "rx_fullmatch r s \<longleftrightarrow> list_ex (\<lambda>q. snd q = []) (rx_ends r ([], s))"

text \<open>\<open>re.finditer\<close>: the start and the end of each match. After an empty match the scan moves on
  by one character.\<close>

fun finditer_fuel :: "nat \<Rightarrow> rx \<Rightarrow> pos \<Rightarrow> (pos \<times> pos) list" where
  "finditer_fuel 0 r p = []"
| "finditer_fuel (Suc n) r p =
     (case search_from r (fst p) (snd p) of
        None \<Rightarrow> []
      | Some (a, b) \<Rightarrow>
          (a, b) # (if length (snd b) < length (snd a) then finditer_fuel n r b
                    else (case snd b of [] \<Rightarrow> [] | c # cs \<Rightarrow> finditer_fuel n r (c # fst b, cs))))"

definition finditer :: "rx \<Rightarrow> string \<Rightarrow> (pos \<times> pos) list" where
  "finditer r s = finditer_fuel (Suc (length s)) r ([], s)"

definition findall :: "rx \<Rightarrow> string \<Rightarrow> string list" where
  "findall r s = map (\<lambda>(a, b). matched a b) (finditer r s)"

section \<open>Writing patterns\<close>

definition rcls :: "(char \<times> char) list \<Rightarrow> rx" where
  "rcls rs = RCls \<lparr>cc_neg = False, cc_ci = False, cc_ranges = rs\<rparr>"

definition rcls_ci :: "(char \<times> char) list \<Rightarrow> rx" where
  "rcls_ci rs = RCls \<lparr>cc_neg = False, cc_ci = True, cc_ranges = rs\<rparr>"

definition rnot :: "(char \<times> char) list \<Rightarrow> rx" where
  "rnot rs = RCls \<lparr>cc_neg = True, cc_ci = False, cc_ranges = rs\<rparr>"

definition cls :: "(char \<times> char) list \<Rightarrow> cclass" where
  "cls rs = \<lparr>cc_neg = False, cc_ci = False, cc_ranges = rs\<rparr>"

definition cls_ci :: "(char \<times> char) list \<Rightarrow> cclass" where
  "cls_ci rs = \<lparr>cc_neg = False, cc_ci = True, cc_ranges = rs\<rparr>"

definition single :: "char \<Rightarrow> char \<times> char" where
  "single c = (c, c)"

definition rchar :: "char \<Rightarrow> rx" where
  "rchar c = rcls [single c]"

fun rlit :: "string \<Rightarrow> rx" where
  "rlit [] = REps"
| "rlit (c # cs) = RSeq (rchar c) (rlit cs)"

fun rlit_ci :: "string \<Rightarrow> rx" where
  "rlit_ci [] = REps"
| "rlit_ci (c # cs) = RSeq (rcls_ci [single c]) (rlit_ci cs)"

definition rplus :: "rx \<Rightarrow> rx" where
  "rplus r = RSeq r (RStar r)"

definition ropt :: "rx \<Rightarrow> rx" where
  "ropt r = RAlt r REps"

fun rtimes :: "nat \<Rightarrow> rx \<Rightarrow> rx" where
  "rtimes 0 r = REps"
| "rtimes (Suc n) r = RSeq r (rtimes n r)"

definition rat_least :: "nat \<Rightarrow> rx \<Rightarrow> rx" where
  "rat_least n r = RSeq (rtimes n r) (RStar r)"

fun rup_to :: "nat \<Rightarrow> rx \<Rightarrow> rx" where
  "rup_to 0 r = REps"
| "rup_to (Suc n) r = ropt (RSeq r (rup_to n r))"

fun rseq :: "rx list \<Rightarrow> rx" where
  "rseq [] = REps"
| "rseq [r] = r"
| "rseq (r # q # rs) = RSeq r (rseq (q # rs))"

fun ralts :: "rx list \<Rightarrow> rx" where
  "ralts [] = RCls \<lparr>cc_neg = False, cc_ci = False, cc_ranges = []\<rparr>"
| "ralts [r] = r"
| "ralts (r # q # rs) = RAlt r (ralts (q # rs))"

abbreviation az :: "char \<times> char" where "az \<equiv> (CHR ''a'', CHR ''z'')"
abbreviation AZ :: "char \<times> char" where "AZ \<equiv> (CHR ''A'', CHR ''Z'')"
abbreviation d09 :: "char \<times> char" where "d09 \<equiv> (CHR ''0'', CHR ''9'')"
abbreviation af :: "char \<times> char" where "af \<equiv> (CHR ''a'', CHR ''f'')"

text \<open>\<^verbatim>\<open>\s\<close>, \<^verbatim>\<open>\d\<close> and \<^verbatim>\<open>.\<close>.\<close>

definition rspace :: rx where
  "rspace = rcls [(CHR 0x09, CHR 0x0D), (CHR 0x1C, CHR 0x20)]"

definition rdigit :: rx where
  "rdigit = rcls [d09]"

definition rdot :: rx where
  "rdot = rnot [single NL]"

section \<open>What a pattern means\<close>

inductive rx_matches :: "rx \<Rightarrow> string \<Rightarrow> string \<Rightarrow> string \<Rightarrow> bool" where
  m_eps: "rx_matches REps pre [] post"
| m_cls: "in_class k c \<Longrightarrow> rx_matches (RCls k) pre [c] post"
| m_seq: "rx_matches r pre s (t @ post) \<Longrightarrow> rx_matches q (rev s @ pre) t post \<Longrightarrow>
    rx_matches (RSeq r q) pre (s @ t) post"
| m_alt1: "rx_matches r pre s post \<Longrightarrow> rx_matches (RAlt r q) pre s post"
| m_alt2: "rx_matches q pre s post \<Longrightarrow> rx_matches (RAlt r q) pre s post"
| m_star0: "rx_matches (RStar r) pre [] post"
| m_star: "rx_matches r pre s (t @ post) \<Longrightarrow> s \<noteq> [] \<Longrightarrow>
    rx_matches (RStar r) (rev s @ pre) t post \<Longrightarrow> rx_matches (RStar r) pre (s @ t) post"
| m_assert: "holds_at a (pre, post) \<Longrightarrow> rx_matches (RAssert a) pre [] post"

inductive_simps m_eps_iff: "rx_matches REps pre s post"
inductive_simps m_cls_iff: "rx_matches (RCls k) pre s post"
inductive_simps m_seq_iff: "rx_matches (RSeq r q) pre s post"
inductive_simps m_alt_iff: "rx_matches (RAlt r q) pre s post"
inductive_simps m_assert_iff: "rx_matches (RAssert a) pre s post"
inductive_simps m_star_iff: "rx_matches (RStar r) pre s post"

lemmas rx_simps = m_eps_iff m_cls_iff m_seq_iff m_alt_iff m_assert_iff

text \<open>\<open>reaches r p q\<close>: a match from \<open>p\<close> can end at \<open>q\<close>.\<close>

definition reaches :: "rx \<Rightarrow> pos \<Rightarrow> pos \<Rightarrow> bool" where
  "reaches r p q \<longleftrightarrow> (\<exists>s. snd p = s @ snd q \<and> fst q = rev s @ fst p \<and> rx_matches r (fst p) s (snd q))"

lemma reaches_star:
  "reaches (RStar r) p q \<longleftrightarrow>
     q = p \<or> (\<exists>p'. reaches r p p' \<and> length (snd p') < length (snd p) \<and> reaches (RStar r) p' q)"
proof
  assume "reaches (RStar r) p q"
  then obtain s where s: "snd p = s @ snd q" "fst q = rev s @ fst p" "rx_matches (RStar r) (fst p) s (snd q)"
    unfolding reaches_def by blast
  from s(3) consider "s = []"
    | u t where "s = u @ t" "rx_matches r (fst p) u (t @ snd q)" "u \<noteq> []"
        "rx_matches (RStar r) (rev u @ fst p) t (snd q)"
    using m_star_iff[of r "fst p" s "snd q"] by blast
  then show "q = p \<or> (\<exists>p'. reaches r p p' \<and> length (snd p') < length (snd p) \<and> reaches (RStar r) p' q)"
  proof cases
    case 1
    with s have "q = p" by (simp add: prod_eq_iff)
    then show ?thesis ..
  next
    case (2 u t)
    let ?p' = "(rev u @ fst p, t @ snd q)"
    have "reaches r p ?p'" using 2 s by (auto simp: reaches_def)
    moreover have "reaches (RStar r) ?p' q" using 2 s by (auto simp: reaches_def)
    moreover have "length (snd ?p') < length (snd p)" using 2 s by simp
    ultimately show ?thesis by blast
  qed
next
  assume "q = p \<or> (\<exists>p'. reaches r p p' \<and> length (snd p') < length (snd p) \<and> reaches (RStar r) p' q)"
  then show "reaches (RStar r) p q"
  proof
    assume "q = p"
    then show ?thesis by (auto simp: reaches_def m_star0)
  next
    assume "\<exists>p'. reaches r p p' \<and> length (snd p') < length (snd p) \<and> reaches (RStar r) p' q"
    then obtain p' u t where
      u: "snd p = u @ snd p'" "fst p' = rev u @ fst p" "rx_matches r (fst p) u (snd p')" and
      t: "snd p' = t @ snd q" "fst q = rev t @ fst p'" "rx_matches (RStar r) (fst p') t (snd q)" and
      lt: "length (snd p') < length (snd p)"
      unfolding reaches_def by blast
    from u(1) lt have "u \<noteq> []" by auto
    with u t have "rx_matches (RStar r) (fst p) (u @ t) (snd q)"
      by (auto intro: m_star)
    with u t show ?thesis by (auto simp: reaches_def)
  qed
qed

lemma star_ends_iff:
  assumes f: "\<And>p q. q \<in> set (f p) \<longleftrightarrow> reaches r p q" and n: "length (snd p) \<le> n"
  shows "q \<in> set (star_ends n f p) \<longleftrightarrow> reaches (RStar r) p q"
  using n
proof (induction n arbitrary: p)
  case 0
  then show ?case by (subst reaches_star) auto
next
  case (Suc n)
  have "q \<in> set (star_ends (Suc n) f p) \<longleftrightarrow>
      q = p \<or> (\<exists>p'\<in>set (f p). length (snd p') < length (snd p) \<and> q \<in> set (star_ends n f p'))"
    by (auto split: if_splits)
  also have "\<dots> \<longleftrightarrow>
      q = p \<or> (\<exists>p'. reaches r p p' \<and> length (snd p') < length (snd p) \<and> reaches (RStar r) p' q)"
    unfolding Bex_def f using Suc.IH Suc.prems by (metis less_Suc_eq_le order_less_le_trans)
  also have "\<dots> \<longleftrightarrow> reaches (RStar r) p q" by (rule reaches_star[symmetric])
  finally show ?case .
qed

lemma reaches_seq: "reaches (RSeq r q) p e \<longleftrightarrow> (\<exists>m. reaches r p m \<and> reaches q m e)"
proof
  assume "reaches (RSeq r q) p e"
  then obtain s where s: "snd p = s @ snd e" "fst e = rev s @ fst p" "rx_matches (RSeq r q) (fst p) s (snd e)"
    unfolding reaches_def by blast
  then obtain u t where ut: "s = u @ t" "rx_matches r (fst p) u (t @ snd e)" "rx_matches q (rev u @ fst p) t (snd e)"
    by (auto simp: m_seq_iff)
  let ?m = "(rev u @ fst p, t @ snd e)"
  have "reaches r p ?m" "reaches q ?m e" using s ut by (auto simp: reaches_def)
  then show "\<exists>m. reaches r p m \<and> reaches q m e" by blast
next
  assume "\<exists>m. reaches r p m \<and> reaches q m e"
  then obtain m u t where
    "snd p = u @ snd m" "fst m = rev u @ fst p" "rx_matches r (fst p) u (snd m)"
    "snd m = t @ snd e" "fst e = rev t @ fst m" "rx_matches q (fst m) t (snd e)"
    unfolding reaches_def by blast
  then show "reaches (RSeq r q) p e"
    by (auto simp: reaches_def m_seq_iff)
qed

text \<open>The engine finds exactly the matches of the declarative reading.\<close>

theorem rx_ends_iff: "q \<in> set (rx_ends r p) \<longleftrightarrow> reaches r p q"
proof (induction r arbitrary: p q)
  case REps
  then show ?case by (auto simp: reaches_def rx_simps prod_eq_iff)
next
  case (RCls k)
  then show ?case by (cases p; cases q) (auto simp: reaches_def rx_simps split: list.splits)
next
  case (RSeq r1 r2)
  have "q \<in> set (rx_ends (RSeq r1 r2) p) \<longleftrightarrow> (\<exists>m. m \<in> set (rx_ends r1 p) \<and> q \<in> set (rx_ends r2 m))"
    by auto
  then show ?case unfolding RSeq.IH reaches_seq .
next
  case (RAlt r1 r2)
  then show ?case by (auto simp: reaches_def rx_simps)
next
  case (RStar r)
  then show ?case by (simp add: star_ends_iff)
next
  case (RAssert a)
  then show ?case by (cases p; cases q) (auto simp: reaches_def rx_simps)
qed

lemma match_at_reaches: "match_at r p = Some q \<Longrightarrow> reaches r p q"
  using rx_ends_iff[of q r p] by (simp add: match_at_def split: list.splits)

lemma match_at_iff: "match_at r p \<noteq> None \<longleftrightarrow> (\<exists>q. reaches r p q)"
proof -
  have "match_at r p \<noteq> None \<longleftrightarrow> (\<exists>q. q \<in> set (rx_ends r p))"
    unfolding ex_in_conv by (simp add: match_at_def split: list.splits)
  then show ?thesis unfolding rx_ends_iff .
qed

lemma search_from_iff:
  "search_from r pre s \<noteq> None \<longleftrightarrow>
     (\<exists>a m b. s = a @ m @ b \<and> rx_matches r (rev a @ pre) m b)"
proof (induction s arbitrary: pre)
  case Nil
  show ?case
    using match_at_iff[of r "(pre, [])"] by (auto simp: reaches_def split: option.splits)
next
  case (Cons c cs)
  have here: "match_at r (pre, c # cs) \<noteq> None \<longleftrightarrow> (\<exists>m b. c # cs = m @ b \<and> rx_matches r pre m b)"
    using match_at_iff[of r "(pre, c # cs)"] by (auto simp: reaches_def)
  have "(\<exists>a m b. c # cs = a @ m @ b \<and> rx_matches r (rev a @ pre) m b) \<longleftrightarrow>
      (\<exists>m b. c # cs = m @ b \<and> rx_matches r pre m b) \<or>
      (\<exists>a m b. cs = a @ m @ b \<and> rx_matches r (rev a @ c # pre) m b)" (is "?L \<longleftrightarrow> ?R1 \<or> ?R2")
  proof
    assume ?L
    then obtain a m b where h: "c # cs = a @ m @ b" "rx_matches r (rev a @ pre) m b" by blast
    show "?R1 \<or> ?R2"
    proof (cases a)
      case (Cons d a')
      with h have "cs = a' @ m @ b" "rx_matches r (rev a' @ c # pre) m b" by auto
      then show ?thesis by blast
    qed (use h in auto)
  next
    assume "?R1 \<or> ?R2"
    then show ?L
    proof
      assume ?R1
      then obtain m b where "c # cs = [] @ m @ b" "rx_matches r (rev [] @ pre) m b" by auto
      then show ?L by blast
    next
      assume ?R2
      then obtain a m b where "c # cs = (c # a) @ m @ b" "rx_matches r (rev (c # a) @ pre) m b" by auto
      then show ?L by blast
    qed
  qed
  then show ?case using here Cons.IH[of "c # pre"] by (auto split: option.splits)
qed

text \<open>\<open>re.search\<close> succeeds exactly when some part of the text matches in its context.\<close>

theorem rx_search_iff:
  "rx_search r s \<longleftrightarrow> (\<exists>a m b. s = a @ m @ b \<and> rx_matches r (rev a) m b)"
  unfolding rx_search_def search_from_iff by simp

lemma rx_fullmatch_iff: "rx_fullmatch r s \<longleftrightarrow> rx_matches r [] s []"
proof -
  have "rx_fullmatch r s \<longleftrightarrow> (\<exists>q. reaches r ([], s) q \<and> snd q = [])"
    unfolding rx_fullmatch_def list_ex_iff Bex_def rx_ends_iff ..
  also have "\<dots> \<longleftrightarrow> rx_matches r [] s []"
    by (auto simp: reaches_def intro!: exI[of _ "(rev s, [])"])
  finally show ?thesis .
qed

lemma search_from_reaches:
  "search_from r pre s = Some (a, b) \<Longrightarrow> reaches r a b"
proof (induction s arbitrary: pre)
  case Nil
  then have "match_at r (pre, []) = Some b" "a = (pre, [])" by (simp_all split: option.splits)
  then show ?case by (simp add: match_at_reaches)
next
  case (Cons c cs)
  show ?case
  proof (cases "match_at r (pre, c # cs)")
    case None
    with Cons show ?thesis by simp
  next
    case (Some q)
    with Cons.prems have "a = (pre, c # cs)" "b = q" by simp_all
    with Some show ?thesis by (simp add: match_at_reaches)
  qed
qed

lemma search_from_start:
  "search_from r pre s = Some (a, b) \<Longrightarrow> \<exists>u. s = u @ snd a \<and> fst a = rev u @ pre"
proof (induction s arbitrary: pre)
  case (Cons c cs)
  show ?case
  proof (cases "match_at r (pre, c # cs)")
    case None
    with Cons obtain u where "cs = u @ snd a" "fst a = rev u @ c # pre" by fastforce
    then have "c # cs = (c # u) @ snd a" "fst a = rev (c # u) @ pre" by auto
    then show ?thesis by blast
  qed (use Cons in auto)
qed (auto split: option.splits)

section \<open>Literals\<close>

lemma in_class_single [simp]:
  "in_class \<lparr>cc_neg = False, cc_ci = False, cc_ranges = [single c]\<rparr> d \<longleftrightarrow> d = c"
  by (auto simp: in_class_def in_ranges_def in_range_def single_def)

lemma rlit_matches: "rx_matches (rlit t) pre s post \<longleftrightarrow> s = t"
  by (induction t arbitrary: pre s) (auto simp: rx_simps rchar_def rcls_def)

text \<open>Ignoring case, a lowercase literal matches what lowers to it.\<close>

lemma in_class_ci_single:
  assumes "to_lower c = c"
  shows "in_class \<lparr>cc_neg = False, cc_ci = True, cc_ranges = [single c]\<rparr> d \<longleftrightarrow> to_lower d = c"
proof -
  have nu: "\<not> is_upper c"
  proof
    assume u: "is_upper c"
    with assms have "of_char (char_of (of_char c + 32 :: nat) :: char) = (of_char c :: nat)" by (simp add: to_lower_def)
    moreover have "of_char c \<le> (90 :: nat)" using u by (simp add: char_class_defs)
    ultimately show False by simp
  qed
  have "to_upper d = c \<Longrightarrow> to_lower d = c"
  proof (cases "is_lower d")
    case True
    then have "is_upper (to_upper d)" by (auto simp: to_upper_def char_class_defs)
    then show "to_upper d = c \<Longrightarrow> to_lower d = c" using nu by simp
  next
    case False
    then show "to_upper d = c \<Longrightarrow> to_lower d = c" using assms by (simp add: to_upper_def)
  qed
  then show ?thesis using assms
    by (auto simp: in_class_def in_ranges_def in_range_def single_def)
qed

lemma rlit_ci_matches:
  "lower t = t \<Longrightarrow> rx_matches (rlit_ci t) pre s post \<longleftrightarrow> lower s = t"
proof (induction t arbitrary: pre s)
  case Nil
  then show ?case by (auto simp: rx_simps lower_def)
next
  case (Cons c t)
  then have c: "to_lower c = c" "lower t = t" by (simp_all add: lower_def)
  have "rx_matches (rlit_ci (c # t)) pre s post \<longleftrightarrow>
      (\<exists>d u. s = [d] @ u \<and> to_lower d = c \<and> lower u = t)"
    unfolding rlit_ci.simps m_seq_iff rcls_ci_def m_cls_iff in_class_ci_single[OF c(1)] Cons.IH[OF c(2)]
    by blast
  also have "\<dots> \<longleftrightarrow> lower s = c # t" by (cases s) (auto simp: lower_def)
  finally show ?case .
qed

text \<open>Searching for a literal is the substring test.\<close>

lemma rx_search_lit: "rx_search (rlit t) s \<longleftrightarrow> contains s t"
  by (simp add: rx_search_iff rlit_matches contains_iff)

lemma rx_search_alt: "rx_search (RAlt r q) s \<longleftrightarrow> rx_search r s \<or> rx_search q s"
  by (auto simp: rx_search_iff rx_simps)

lemma ralts_matches: "rx_matches (ralts rs) pre s post \<longleftrightarrow> (\<exists>r\<in>set rs. rx_matches r pre s post)"
  by (induction rs rule: ralts.induct) (auto simp: rx_simps in_class_def in_ranges_def)

lemma rstar_cls_matches: "rx_matches (RStar (RCls k)) pre s post \<longleftrightarrow> (\<forall>c\<in>set s. in_class k c)"
proof (induction s arbitrary: pre)
  case Nil
  show ?case by (simp add: m_star0)
next
  case (Cons c cs)
  show ?case
  proof
    assume "rx_matches (RStar (RCls k)) pre (c # cs) post"
    from m_star_iff[THEN iffD1, OF this] obtain u t where ut: "c # cs = u @ t"
        "rx_matches (RCls k) pre u (t @ post)" "rx_matches (RStar (RCls k)) (rev u @ pre) t post"
      by (metis list.distinct(1))
    from ut(2) obtain d where "u = [d]" "in_class k d" by (auto simp: m_cls_iff)
    with ut have "in_class k c" "rx_matches (RStar (RCls k)) (c # pre) cs post"
      by simp_all
    with Cons.IH show "\<forall>d\<in>set (c # cs). in_class k d" by auto
  next
    assume "\<forall>d\<in>set (c # cs). in_class k d"
    with Cons.IH have "rx_matches (RCls k) pre [c] (cs @ post)" "rx_matches (RStar (RCls k)) (rev [c] @ pre) cs post"
      by (auto simp: rx_simps)
    from m_star[OF this(1) _ this(2)] show "rx_matches (RStar (RCls k)) pre (c # cs) post" by simp
  qed
qed

lemma rchar_matches: "rx_matches (rchar c) pre s post \<longleftrightarrow> s = [c]"
  by (auto simp: rchar_def rcls_def rx_simps)

lemma ropt_matches: "rx_matches (ropt r) pre s post \<longleftrightarrow> s = [] \<or> rx_matches r pre s post"
  by (auto simp: ropt_def rx_simps)

lemma in_class_space [simp]:
  "in_class \<lparr>cc_neg = False, cc_ci = False, cc_ranges = [(CHR 0x09, CHR 0x0D), (CHR 0x1C, CHR 0x20)]\<rparr> c
     \<longleftrightarrow> is_space c"
  by (auto simp: in_class_def in_ranges_def is_space_def)

lemma rspaces_matches: "rx_matches (RStar rspace) pre s post \<longleftrightarrow> (\<forall>c\<in>set s. is_space c)"
  by (simp add: rspace_def rcls_def rstar_cls_matches)

lemmas rx_build_simps = rlit_matches rchar_matches ropt_matches rspaces_matches rstar_cls_matches

text \<open>Every match \<open>finditer\<close> reports is a match of the pattern.\<close>

lemma finditer_sound: "(a, b) \<in> set (finditer_fuel n r p) \<Longrightarrow> reaches r a b"
proof (induction n arbitrary: p)
  case (Suc n)
  show ?case
  proof (cases "search_from r (fst p) (snd p)")
    case None
    with Suc.prems show ?thesis by simp
  next
    case (Some ab)
    then obtain a' b' where ab: "search_from r (fst p) (snd p) = Some (a', b')" by (cases ab) auto
    with Suc.prems consider "(a, b) = (a', b')" | p' where "(a, b) \<in> set (finditer_fuel n r p')"
      by (cases b') (auto split: if_splits list.splits)
    then show ?thesis by cases (use ab Suc.IH search_from_reaches in blast)+
  qed
qed simp

lemma finditer_Nil_iff: "finditer r s = [] \<longleftrightarrow> \<not> rx_search r s"
  by (simp add: finditer_def rx_search_def split: option.splits)

lemma search_from_suffix:
  "search_from r pre s = Some (a, b) \<Longrightarrow> \<exists>u v. s = u @ snd a \<and> snd a = v @ snd b"
proof -
  assume h: "search_from r pre s = Some (a, b)"
  from search_from_start[OF h] obtain u where "s = u @ snd a" by blast
  moreover from search_from_reaches[OF h] obtain v where "snd a = v @ snd b"
    unfolding reaches_def by blast
  ultimately show ?thesis by blast
qed

text \<open>A match \<open>finditer\<close> reports lies in the text.\<close>

lemma finditer_fuel_suffix:
  "(a, b) \<in> set (finditer_fuel n r p) \<Longrightarrow> \<exists>u. snd p = u @ snd a"
proof (induction n arbitrary: p)
  case (Suc n)
  show ?case
  proof (cases "search_from r (fst p) (snd p)")
    case None
    with Suc.prems show ?thesis by simp
  next
    case (Some ab)
    then obtain a' b' where ab: "search_from r (fst p) (snd p) = Some (a', b')" by (cases ab) auto
    from search_from_suffix[OF this] obtain u v where uv: "snd p = u @ snd a'" "snd a' = v @ snd b'" by blast
    from Suc.prems ab consider "(a, b) = (a', b')"
      | "(a, b) \<in> set (finditer_fuel n r b')"
      | c cs where "snd b' = c # cs" "(a, b) \<in> set (finditer_fuel n r (c # fst b', cs))"
      by (cases "snd b'") (auto split: if_splits)
    then show ?thesis
    proof cases
      case 1
      with uv show ?thesis by auto
    next
      case 2
      from Suc.IH[OF this] uv show ?thesis by (metis append.assoc)
    next
      case 3
      from Suc.IH[OF this(2)] obtain w where "cs = w @ snd a" by auto
      with uv 3(1) have "snd p = (u @ v @ [c] @ w) @ snd a" by simp
      then show ?thesis by blast
    qed
  qed
qed simp

lemma finditer_suffix: "(a, b) \<in> set (finditer r s) \<Longrightarrow> \<exists>u. s = u @ snd a"
  using finditer_fuel_suffix[of a b "Suc (length s)" r "([], s)"] unfolding finditer_def by simp

end
