(* ===== verification/Baseline.thy ===== *)
theory Baseline
  imports Prelude
begin

text \<open>
  The contract of the two gates that carry a baseline of known findings
  (\<^verbatim>\<open>check_scratch_path_convention.py\<close> and \<^verbatim>\<open>verify_public_receipts.py\<close>): the exit code of a run is
  a function of the keys it found and the keys the baseline lists; a new finding fails, an entry
  that matches nothing fails, and agreement passes. The theories of the two gates interpret the
  locale on their own verdict functions.
\<close>

locale ratchet =
  fixes code :: "'k list \<Rightarrow> 'k list \<Rightarrow> nat"
  assumes new_fails: "x \<in> set found \<Longrightarrow> x \<notin> set known \<Longrightarrow> code found known = 1"
    and stale_fails: "x \<in> set known \<Longrightarrow> x \<notin> set found \<Longrightarrow> code found known = 1"
    and agreed_passes: "set found = set known \<Longrightarrow> code found known = 0"
begin

lemma zero_iff: "code found known = 0 \<longleftrightarrow> set found = set known"
proof
  assume z: "code found known = 0"
  show "set found = set known"
  proof (rule ccontr)
    assume "set found \<noteq> set known"
    then obtain x where "x \<in> set found \<and> x \<notin> set known \<or> x \<in> set known \<and> x \<notin> set found" by blast
    with new_fails[of x found known] stale_fails[of x known found] z show False by auto
  qed
qed (rule agreed_passes)

lemma zero_or_one: "code found known = (if set found = set known then 0 else 1)"
proof (cases "set found = set known")
  case False
  then obtain x where "x \<in> set found \<and> x \<notin> set known \<or> x \<in> set known \<and> x \<notin> set found" by blast
  with new_fails[of x found known] stale_fails[of x known found] False show ?thesis by auto
qed (simp add: agreed_passes)

text \<open>With a passing baseline a run passes again only with the very same findings: nothing new rides
  in, and a repaired finding has to leave the baseline.\<close>

lemma pass_pins_findings:
  "code found known = 0 \<Longrightarrow> code found' known = 0 \<longleftrightarrow> set found' = set found"
  by (simp add: zero_iff)

lemma empty_baseline: "code found [] = 0 \<longleftrightarrow> found = []"
  by (simp add: zero_iff)

end

end
