(* ===== verification/Subprocess.thy ===== *)
theory Subprocess
  imports JsonText
begin

text \<open>
  The commands the scripts start with \<open>subprocess.run(.., capture_output=True, text=True)\<close>. What runs
  outside is the parameter: a function from the argument list to the text of the \<open>OSError\<close>, when the
  program cannot be started, or to what the ended process left. Output that is not UTF-8 is outside
  the model.

  \<open>answers\<close> is the specification a caller can rely on: the command ran, ended with code 0 and printed
  one JSON document.
\<close>

record completed =
  returncode :: int
  stdout :: str
  stderr :: str

type_synonym process = "string list \<Rightarrow> string + completed"

definition json_answer :: "completed \<Rightarrow> json option" where
  "json_answer out = (if returncode out = 0 then json_loads (stdout out) else None)"

definition answers :: "process \<Rightarrow> string list \<Rightarrow> json \<Rightarrow> bool" where
  "answers run argv v \<longleftrightarrow> (\<exists>out. run argv = Inr out \<and> json_answer out = Some v)"

lemma answers_unique: "answers run argv v \<Longrightarrow> answers run argv w \<Longrightarrow> v = w"
  by (auto simp: answers_def)

lemma answers_wf: "answers run argv v \<Longrightarrow> wf_json v"
  by (auto simp: answers_def json_answer_def intro: loads_wf split: if_splits)

text \<open>A process that prints a value in one of the printer's styles answers with that value.\<close>

definition prints :: "json \<Rightarrow> completed" where
  "prints v = \<lparr>returncode = 0, stdout = json_dumps default_style v, stderr = []\<rparr>"

lemma answers_prints: "run argv = Inr (prints v) \<Longrightarrow> plain_json v \<Longrightarrow> answers run argv v"
  using loads_dumps[OF styles_ok(2), of v "[]"] by (simp add: answers_def json_answer_def prints_def)

text \<open>One output does not always do: a command that fails is not an answer, whatever it printed.\<close>

lemma failed_no_answer: "run argv = Inr out \<Longrightarrow> returncode out \<noteq> 0 \<Longrightarrow> \<not> answers run argv v"
  by (simp add: answers_def json_answer_def)

lemma unstarted_no_answer: "run argv = Inl err \<Longrightarrow> \<not> answers run argv v"
  by (simp add: answers_def)

end
