(* ===== verification/StackedPr.thy ===== *)
theory StackedPr
  imports Subprocess
begin

text \<open>
  \<^verbatim>\<open>src/athanor/check_stacked_pr_approvals.py\<close>: a pull request whose base is not the default
  branch needs two approvals bound to its current head.

  \<open>approvals_at_head\<close> and \<open>evaluate\<close> work on the parsed API payloads and return a sum, the left
  side being the exception a malformed payload raises. \<open>gh_json\<close> reads a REST path through the
  \<^verbatim>\<open>gh\<close> command, \<open>stacked_main\<close> works on its results, and \<open>stacked_command\<close> is the two together, a
  function of what the started processes leave; the uncaught exception of a malformed payload ends
  the process with exit code 1, as Python does.
\<close>

section \<open>Approvals at the head\<close>

definition REQUIRED_APPROVALS :: nat where
  "REQUIRED_APPROVALS = 2"

text \<open>What one pass of the loop does to \<open>latest\<close>.\<close>

definition latest_step :: "json \<Rightarrow> (json \<times> string) list \<Rightarrow> json \<Rightarrow> (json \<times> string) list res" where
  "latest_step head_sha latest review =
     bind_res (as_obj review) (\<lambda>r.
       let state = get r ''state'' in
       if \<not> hashable state then Inl TypeError
       else if state \<noteq> JStr ''APPROVED'' \<and> state \<noteq> JStr ''CHANGES_REQUESTED'' then Inr latest
       else if \<not> py_eq (get r ''commit_id'') head_sha then Inr latest
       else bind_res (as_obj (or_empty (get r ''user''))) (\<lambda>user.
         let login = get user ''login'' in
         if \<not> truthy login then Inr latest
         else if \<not> hashable login then Inl TypeError
         else Inr (dict_set latest (hash_key login) (py_str state))))"

fun latest_reviews :: "json list \<Rightarrow> json \<Rightarrow> (json \<times> string) list \<Rightarrow> (json \<times> string) list res" where
  "latest_reviews [] head_sha latest = Inr latest"
| "latest_reviews (review # reviews) head_sha latest =
     bind_res (latest_step head_sha latest review) (latest_reviews reviews head_sha)"

text \<open>The returned Python set, as the list of its elements.\<close>

definition approvals_at_head :: "json list \<Rightarrow> json \<Rightarrow> json list res" where
  "approvals_at_head reviews head_sha =
     bind_res (latest_reviews reviews head_sha []) (\<lambda>latest.
       Inr (map fst (filter (\<lambda>(who, state). state = ''APPROVED'') latest)))"

section \<open>The verdict\<close>

definition slice10 :: "json \<Rightarrow> string res" where
  "slice10 v = (case v of JStr s \<Rightarrow> Inr (take_points 10 s) | JArr xs \<Rightarrow> Inr (py_repr (JArr (take 10 xs)))
                 | _ \<Rightarrow> Inl TypeError)"

definition join_logins :: "json list \<Rightarrow> string res" where
  "join_logins ws =
     (if list_all is_str ws then Inr (join '', '' (sort (map py_str ws))) else Inl TypeError)"

definition EM_DASH :: string where
  "EM_DASH = [CHR 0xE2, CHR 0x80, CHR 0x94]"

definition not_applicable_message :: "json \<Rightarrow> json \<Rightarrow> string" where
  "not_applicable_message number default_branch =
     ''not applicable: #'' @ py_str number @ '' targets the default branch ('' @
     py_str default_branch @ ''), which branch protection already governs.''"

definition satisfied_message :: "json \<Rightarrow> json \<Rightarrow> nat \<Rightarrow> string \<Rightarrow> string \<Rightarrow> string" where
  "satisfied_message number base n sha10 logins =
     ''OK: stacked PR #'' @ py_str number @ '' (base '' @ py_repr base @ '') carries '' @ dec n @
     '' approval(s) at '' @ sha10 @ '' '' @ EM_DASH @ '' '' @ logins @ ''.''"

definition under_bar_message :: "json \<Rightarrow> json \<Rightarrow> nat \<Rightarrow> string \<Rightarrow> string" where
  "under_bar_message number base n sha10 =
     ''STACKED PR UNDER THE APPROVAL BAR: #'' @ py_str number @ '' targets '' @ py_repr base @
     '', not the default branch, so branch protection does not govern its merge. It carries '' @
     dec n @ '' approval(s) at head '' @ sha10 @ '' and needs '' @ dec REQUIRED_APPROVALS @ ''.'' @
     [NL] @ ''  A stack's internal merges must meet the same bar as its external one; '' @
     ''otherwise a reviewer of the parent PR inherits content approved to a lower standard than '' @
     ''the one they are applying.''"

definition evaluate :: "obj \<Rightarrow> json list \<Rightarrow> json \<Rightarrow> (nat \<times> string) res" where
  "evaluate pr reviews default_branch =
     bind_res (as_obj (or_empty (get pr ''base''))) (\<lambda>base_obj.
     bind_res (as_obj (or_empty (get pr ''head''))) (\<lambda>head_obj.
       let base = get base_obj ''ref''; head_sha = get head_obj ''sha''; number = get pr ''number'' in
       if \<not> truthy base \<or> \<not> truthy head_sha
       then Inr (2, ''pull request payload carries no base ref or head sha; NO VERDICT.'')
       else if py_eq base default_branch
       then Inr (0, not_applicable_message number default_branch)
       else bind_res (approvals_at_head reviews head_sha) (\<lambda>approvers.
         if REQUIRED_APPROVALS \<le> length approvers
         then bind_res (slice10 head_sha) (\<lambda>sha10.
              bind_res (join_logins approvers) (\<lambda>logins.
                Inr (0, satisfied_message number base (length approvers) sha10 logins)))
         else bind_res (slice10 head_sha) (\<lambda>sha10.
                Inr (1, under_bar_message number base (length approvers) sha10)))))"

section \<open>The command\<close>

text \<open>\<open>gh path\<close> is what \<^verbatim>\<open>_gh_json\<close> returns for a path: an error text, or the payload. The text of
  the \<open>ValueError\<close> is not kept; the token only changes the environment of the process.\<close>

type_synonym gh_api = "string \<Rightarrow> string + json"

definition gh_args :: "string \<Rightarrow> string list" where
  "gh_args path = [''gh'', ''api'', path]"

definition gh_json :: "process \<Rightarrow> gh_api" where
  "gh_json run path =
     (case run (gh_args path) of
        Inl exc \<Rightarrow> Inl (''cannot invoke gh for '' @ path @ '': '' @ exc)
      | Inr out \<Rightarrow>
          if returncode out \<noteq> 0
          then Inl (''gh api '' @ path @ '' failed: '' @ take_points 200 (strip (stderr out)))
          else (case json_loads (stdout out) of
              None \<Rightarrow> Inl (''gh api '' @ path @ '' returned unparseable JSON: '')
            | Some v \<Rightarrow> Inr v))"

definition stacked_main :: "gh_api \<Rightarrow> string \<Rightarrow> nat \<Rightarrow> nat" where
  "stacked_main gh repo pr_number =
     (case gh (''repos/'' @ repo) of
        Inr (JObj repo_doc) \<Rightarrow>
          let default_branch = get repo_doc ''default_branch'' in
          if \<not> truthy default_branch then 2
          else (case gh (''repos/'' @ repo @ ''/pulls/'' @ dec pr_number) of
            Inr (JObj pr) \<Rightarrow>
              (case gh (''repos/'' @ repo @ ''/pulls/'' @ dec pr_number @ ''/reviews?per_page=100'') of
                Inr (JArr reviews) \<Rightarrow>
                  (case evaluate pr reviews default_branch of Inl _ \<Rightarrow> 1 | Inr (code, _) \<Rightarrow> code)
              | _ \<Rightarrow> 2)
          | _ \<Rightarrow> 2)
      | _ \<Rightarrow> 2)"

definition stacked_command :: "process \<Rightarrow> string \<Rightarrow> nat \<Rightarrow> nat" where
  "stacked_command run = stacked_main (gh_json run)"

text \<open>The three paths \<open>main\<close> reads.\<close>

definition repo_path :: "string \<Rightarrow> string" where
  "repo_path repo = ''repos/'' @ repo"

definition pr_path :: "string \<Rightarrow> nat \<Rightarrow> string" where
  "pr_path repo n = ''repos/'' @ repo @ ''/pulls/'' @ dec n"

definition reviews_path :: "string \<Rightarrow> nat \<Rightarrow> string" where
  "reviews_path repo n = ''repos/'' @ repo @ ''/pulls/'' @ dec n @ ''/reviews?per_page=100''"

lemma gh_json_Inr: "gh_json run path = Inr v \<longleftrightarrow> answers run (gh_args path) v"
  by (auto simp: gh_json_def answers_def json_answer_def split: sum.splits option.splits if_splits)

text \<open>A verdict, either way, needs all three reads: without one of them the exit code is 2.\<close>

lemma verdict_reads:
  assumes "stacked_main gh repo n \<noteq> 2"
  obtains repo_doc pr reviews where
    "gh (repo_path repo) = Inr (JObj repo_doc)" "truthy (get repo_doc ''default_branch'')"
    "gh (pr_path repo n) = Inr (JObj pr)" "gh (reviews_path repo n) = Inr (JArr reviews)"
    "stacked_main gh repo n =
      (case evaluate pr reviews (get repo_doc ''default_branch'') of Inl _ \<Rightarrow> 1 | Inr (code, _) \<Rightarrow> code)"
  using assms unfolding stacked_main_def repo_path_def pr_path_def reviews_path_def Let_def
  by (auto split: sum.splits json.splits if_splits)

section \<open>Specification: the votes of a review list\<close>

text \<open>
  The vote a well-formed review casts at a head: the reviewer and whether it approves. Comments,
  dismissed reviews, reviews of another commit and reviews without a login cast none.
\<close>

definition vote :: "json \<Rightarrow> json \<Rightarrow> (string \<times> bool) option" where
  "vote head_sha review =
     (case review of
        JObj r \<Rightarrow>
          (case (get r ''state'', get r ''user'') of
             (JStr st, JObj u) \<Rightarrow>
               (case get u ''login'' of
                  JStr who \<Rightarrow>
                    if st \<in> {''APPROVED'', ''CHANGES_REQUESTED''} \<and> py_eq (get r ''commit_id'') head_sha
                       \<and> who \<noteq> [] then Some (who, st = ''APPROVED'') else None
                | _ \<Rightarrow> None)
           | _ \<Rightarrow> None)
      | _ \<Rightarrow> None)"

text \<open>A review as the REST API documents it.\<close>

definition review_shape :: "json \<Rightarrow> bool" where
  "review_shape review =
     (case review of
        JObj r \<Rightarrow> is_str (get r ''state'') \<and>
          (case get r ''user'' of
             JNull \<Rightarrow> True
           | JObj u \<Rightarrow> (case get u ''login'' of JStr _ \<Rightarrow> True | JNull \<Rightarrow> True | _ \<Rightarrow> False)
           | _ \<Rightarrow> False)
      | _ \<Rightarrow> False)"

definition state_of_vote :: "bool \<Rightarrow> string" where
  "state_of_vote ok = (if ok then ''APPROVED'' else ''CHANGES_REQUESTED'')"

definition votes :: "json \<Rightarrow> json list \<Rightarrow> (string \<times> bool) list" where
  "votes head_sha reviews = List.map_filter (vote head_sha) reviews"

text \<open>The reviewer's last vote, as a function of the reviewer.\<close>

definition standing :: "json \<Rightarrow> json list \<Rightarrow> string \<Rightarrow> bool option" where
  "standing head_sha reviews who = map_of (rev (votes head_sha reviews)) who"

section \<open>Lemmas\<close>

lemma latest_step_vote:
  assumes "review_shape review"
  shows "latest_step head_sha latest review =
    Inr (case vote head_sha review of None \<Rightarrow> latest
         | Some (who, ok) \<Rightarrow> dict_set latest (JStr who) (state_of_vote ok))"
proof -
  obtain r where r: "review = JObj r" using assms by (cases review) (auto simp: review_shape_def)
  obtain st where st: "get r ''state'' = JStr st" using assms r by (auto simp: review_shape_def is_str_iff)
  show ?thesis
  proof (cases "get r ''user''")
    case JNull
    then show ?thesis
      by (simp add: latest_step_def vote_def r st as_obj_def or_empty_def truthy_def Let_def)
  next
    case (JObj u)
    with assms r consider "get u ''login'' = JNull" | who where "get u ''login'' = JStr who"
      by (cases "get u ''login''") (auto simp: review_shape_def)
    then show ?thesis
      by cases (auto simp: latest_step_def vote_def r st JObj as_obj_def or_empty_def truthy_def
          Let_def state_of_vote_def bind_res_def)
  qed (use assms r in \<open>auto simp: review_shape_def\<close>)
qed

lemma latest_reviews_votes:
  assumes "\<forall>r\<in>set reviews. review_shape r"
  shows "latest_reviews reviews head_sha latest =
    Inr (foldl (\<lambda>d (k, v). dict_set d k v) latest
      (map (\<lambda>(who, ok). (JStr who, state_of_vote ok)) (votes head_sha reviews)))"
  using assms
proof (induction reviews arbitrary: latest)
  case (Cons r rs)
  then show ?case
    by (auto simp: latest_step_vote votes_def map_filter_simps split: option.splits)
qed (simp add: votes_def map_filter_simps)

lemma map_of_rev_votes:
  "map_of (rev (map (\<lambda>(who, ok). (JStr who, state_of_vote ok)) vs)) (JStr w) =
     map_option state_of_vote (map_of (rev vs) w)"
proof -
  have "map_of (map (\<lambda>(who, ok). (JStr who, state_of_vote ok)) us) (JStr w) =
      map_option state_of_vote (map_of us w)" for us
    by (induction us) auto
  then show ?thesis by (simp add: rev_map)
qed

lemma keys_rev_votes:
  "map_of (rev (map (\<lambda>(who, ok). (JStr who, state_of_vote ok)) vs)) k = Some s \<Longrightarrow> \<exists>w. k = JStr w"
  by (auto dest!: map_of_SomeD)

lemma state_of_vote_approved [simp]: "state_of_vote ok = ''APPROVED'' \<longleftrightarrow> ok"
  by (simp add: state_of_vote_def)

lemma approvals_shape:
  assumes "\<forall>r\<in>set reviews. review_shape r"
  shows "\<exists>ws. approvals_at_head reviews head_sha = Inr ws \<and> distinct ws \<and> list_all is_str ws \<and>
    (\<forall>who. JStr who \<in> set ws \<longleftrightarrow> standing head_sha reviews who = Some True)"
proof -
  let ?vs = "map (\<lambda>(who, ok). (JStr who, state_of_vote ok)) (votes head_sha reviews)"
  let ?d = "dict_of ?vs"
  let ?ws = "map fst (filter (\<lambda>(who, state). state = ''APPROVED'') ?d)"
  have eq: "approvals_at_head reviews head_sha = Inr ?ws"
    by (simp add: approvals_at_head_def latest_reviews_votes[OF assms] dict_of_def)
  have dist: "distinct (map fst ?d)" by (rule distinct_dict_of)
  have mem: "k \<in> set ?ws \<longleftrightarrow> map_of ?d k = Some ''APPROVED''" for k
    using dist by (auto simp: map_of_eq_Some_iff image_iff)
  have "distinct ?ws" using dist by (rule distinct_map_filter)
  moreover have "list_all is_str ?ws"
    unfolding list_all_iff Ball_def mem map_of_dict_of is_str_iff
    using keys_rev_votes by blast
  moreover have "JStr who \<in> set ?ws \<longleftrightarrow> standing head_sha reviews who = Some True" for who
    unfolding mem map_of_dict_of map_of_rev_votes standing_def by auto
  ultimately show ?thesis using eq by blast
qed

section \<open>Properties\<close>

text \<open>C29: for reviews of the documented shape, \<open>approvals_at_head\<close> never raises and returns
  exactly the reviewers whose last decisive review of the current head is an approval.\<close>

theorem approvals_are_standing_votes:
  assumes "\<forall>r\<in>set reviews. review_shape r"
  shows "\<exists>ws. approvals_at_head reviews head_sha = Inr ws \<and>
    (\<forall>who. JStr who \<in> set ws \<longleftrightarrow> standing head_sha reviews who = Some True)"
  using approvals_shape[OF assms] by blast

definition demo_review :: "string \<Rightarrow> string \<Rightarrow> string \<Rightarrow> json" where
  "demo_review who st sha =
     JObj [(''state'', JStr st), (''commit_id'', JStr sha), (''user'', JObj [(''login'', JStr who)])]"

theorem approvals_are_standing_votes_witness:
  "\<exists>ws. approvals_at_head [demo_review ''ann'' ''APPROVED'' ''abc'',
      demo_review ''bob'' ''APPROVED'' ''abc'', demo_review ''ann'' ''CHANGES_REQUESTED'' ''abc''] (JStr ''abc'')
     = Inr ws \<and> JStr ''bob'' \<in> set ws \<and> JStr ''ann'' \<notin> set ws"
proof -
  let ?rs = "[demo_review ''ann'' ''APPROVED'' ''abc'',
      demo_review ''bob'' ''APPROVED'' ''abc'', demo_review ''ann'' ''CHANGES_REQUESTED'' ''abc'']"
  have "\<forall>r\<in>set ?rs. review_shape r"
    by (simp add: demo_review_def review_shape_def is_str_def)
  from approvals_are_standing_votes[OF this, of "JStr ''abc''"] show ?thesis
    by (auto simp: standing_def votes_def map_filter_simps vote_def demo_review_def)
qed

lemma two_members: "distinct ws \<Longrightarrow> 2 \<le> length ws \<Longrightarrow> \<exists>a b. a \<in> set ws \<and> b \<in> set ws \<and> a \<noteq> b"
  by (cases ws; cases "tl ws") auto

lemma two_distinct_length: "a \<in> set ws \<Longrightarrow> b \<in> set ws \<Longrightarrow> a \<noteq> b \<Longrightarrow> 2 \<le> length ws"
  by (cases ws; cases "tl ws") auto

text \<open>The parts of a payload \<open>evaluate\<close> reads.\<close>

definition pr_base :: "obj \<Rightarrow> json" where
  "pr_base pr = (case or_empty (get pr ''base'') of JObj b \<Rightarrow> get b ''ref'' | _ \<Rightarrow> JNull)"

definition pr_head :: "obj \<Rightarrow> json" where
  "pr_head pr = (case or_empty (get pr ''head'') of JObj h \<Rightarrow> get h ''sha'' | _ \<Rightarrow> JNull)"

lemma evaluate_zero:
  assumes "evaluate pr reviews d = Inr (0, msg)"
  shows "py_eq (pr_base pr) d \<or>
    (\<exists>ws. approvals_at_head reviews (pr_head pr) = Inr ws \<and> 2 \<le> length ws)"
  using assms
  by (auto simp: evaluate_def bind_res_eq_Inr pr_base_def pr_head_def Let_def REQUIRED_APPROVALS_def
      split: if_splits)

lemma evaluate_zero_standing:
  assumes "evaluate pr reviews d = Inr (0, msg)" "\<not> py_eq (pr_base pr) d" "\<forall>r\<in>set reviews. review_shape r"
  shows "\<exists>a b. a \<noteq> b \<and> standing (pr_head pr) reviews a = Some True
    \<and> standing (pr_head pr) reviews b = Some True"
proof -
  from evaluate_zero[OF assms(1)] assms(2) obtain ws where
    ws: "approvals_at_head reviews (pr_head pr) = Inr ws" "2 \<le> length ws" by blast
  from approvals_shape[OF assms(3), of "pr_head pr"] ws(1) have
    d: "distinct ws" "list_all is_str ws" and
    st: "\<And>who. JStr who \<in> set ws \<longleftrightarrow> standing (pr_head pr) reviews who = Some True" by auto
  from two_members[OF d(1) ws(2)] obtain u v where
    uv: "u \<in> set ws" "v \<in> set ws" "u \<noteq> v" by blast
  with d(2) obtain a b where "u = JStr a" "v = JStr b"
    unfolding list_all_iff is_str_iff by blast
  with uv st show ?thesis by blast
qed

text \<open>C31: the gate is sound. If the command exits 0, then each of the three \<^verbatim>\<open>gh\<close> processes was
  started, ended with code 0 and printed a payload of the expected kind; and if the pull request's
  base is not the default branch and the reviews have the documented shape, two different reviewers
  stand as approving the current head.\<close>

theorem stacked_gate_sound:
  assumes "stacked_command run repo n = 0"
  shows "\<exists>repo_doc pr reviews.
    answers run (gh_args (repo_path repo)) (JObj repo_doc) \<and> answers run (gh_args (pr_path repo n)) (JObj pr) \<and>
    answers run (gh_args (reviews_path repo n)) (JArr reviews) \<and>
    (\<not> py_eq (pr_base pr) (get repo_doc ''default_branch'') \<and> (\<forall>r\<in>set reviews. review_shape r) \<longrightarrow>
      (\<exists>a b. a \<noteq> b \<and> standing (pr_head pr) reviews a = Some True \<and> standing (pr_head pr) reviews b = Some True))"
proof -
  have main: "stacked_main (gh_json run) repo n = 0" "stacked_main (gh_json run) repo n \<noteq> 2"
    using assms by (simp_all add: stacked_command_def)
  obtain repo_doc pr reviews where
    gh: "gh_json run (repo_path repo) = Inr (JObj repo_doc)" "gh_json run (pr_path repo n) = Inr (JObj pr)"
      "gh_json run (reviews_path repo n) = Inr (JArr reviews)" and
    ev: "stacked_main (gh_json run) repo n =
      (case evaluate pr reviews (get repo_doc ''default_branch'') of Inl _ \<Rightarrow> 1 | Inr (code, _) \<Rightarrow> code)"
    by (rule verdict_reads[OF main(2)])
  from ev main(1) obtain msg where
    "evaluate pr reviews (get repo_doc ''default_branch'') = Inr (0, msg)" by (auto split: sum.splits)
  from evaluate_zero_standing[OF this] gh show ?thesis unfolding gh_json_Inr by blast
qed

text \<open>A read that got no answer, because \<^verbatim>\<open>gh\<close> could not be started, failed or printed no JSON,
  leaves the command without a verdict, whatever the other two reads gave.\<close>

lemma unanswered_no_verdict:
  assumes "path \<in> {repo_path repo, pr_path repo n, reviews_path repo n}" "\<And>v. \<not> answers run (gh_args path) v"
  shows "stacked_command run repo n = 2"
proof (rule ccontr)
  assume "stacked_command run repo n \<noteq> 2"
  then have "stacked_main (gh_json run) repo n \<noteq> 2" by (simp add: stacked_command_def)
  then show False
    by (rule verdict_reads) (use assms in \<open>auto simp: gh_json_Inr\<close>)
qed

definition demo_gh :: "json list \<Rightarrow> gh_api" where
  "demo_gh reviews path =
     (if path = ''repos/o/r'' then Inr (JObj [(''default_branch'', JStr ''main'')])
      else if path = ''repos/o/r/pulls/7'' then
        Inr (JObj [(''number'', JInt 7), (''base'', JObj [(''ref'', JStr ''stack'')]),
                   (''head'', JObj [(''sha'', JStr ''abc'')])])
      else if path = ''repos/o/r/pulls/7/reviews?per_page=100'' then Inr (JArr reviews)
      else Inl ''no such path'')"

lemma dec_7: "dec 7 = ''7''"
  by code_simp

text \<open>Processes that print those payloads.\<close>

definition demo_run :: "json list \<Rightarrow> process" where
  "demo_run reviews argv =
     (case demo_gh reviews (last argv) of Inl err \<Rightarrow> Inr \<lparr>returncode = 1, stdout = [], stderr = err\<rparr>
      | Inr v \<Rightarrow> Inr (prints v))"

definition demo_reviews :: "json list" where
  "demo_reviews = [demo_review ''ann'' ''APPROVED'' ''abc'', demo_review ''bob'' ''APPROVED'' ''abc'']"

definition demo_pr :: obj where
  "demo_pr = [(''number'', JInt 7), (''base'', JObj [(''ref'', JStr ''stack'')]), (''head'', JObj [(''sha'', JStr ''abc'')])]"

lemma demo_answers:
  "answers (demo_run demo_reviews) (gh_args (repo_path ''o/r'')) (JObj [(''default_branch'', JStr ''main'')])"
  "answers (demo_run demo_reviews) (gh_args (pr_path ''o/r'' 7)) (JObj demo_pr)"
  "answers (demo_run demo_reviews) (gh_args (reviews_path ''o/r'' 7)) (JArr demo_reviews)"
  by (rule answers_prints;
      simp add: demo_run_def demo_gh_def gh_args_def repo_path_def pr_path_def reviews_path_def dec_7
        demo_pr_def demo_reviews_def demo_review_def ascii_def)+

lemma demo_command: "stacked_command (demo_run demo_reviews) ''o/r'' 7 = 0"
proof -
  have gh: "gh_json (demo_run demo_reviews) (''repos/'' @ ''o/r'') = Inr (JObj [(''default_branch'', JStr ''main'')])"
    "gh_json (demo_run demo_reviews) (''repos/'' @ ''o/r'' @ ''/pulls/'' @ dec 7) = Inr (JObj demo_pr)"
    "gh_json (demo_run demo_reviews) (''repos/'' @ ''o/r'' @ ''/pulls/'' @ dec 7 @ ''/reviews?per_page=100'')
       = Inr (JArr demo_reviews)"
    using demo_answers unfolding gh_json_Inr repo_path_def pr_path_def reviews_path_def .
  have "\<exists>msg. evaluate demo_pr demo_reviews (JStr ''main'') = Inr (0, msg)"
    by (simp add: evaluate_def approvals_at_head_def demo_pr_def demo_reviews_def
        latest_step_def demo_review_def as_obj_def or_empty_def truthy_def Let_def
        REQUIRED_APPROVALS_def slice10_def join_logins_def is_str_def)
  with gh show ?thesis by (auto simp: stacked_command_def stacked_main_def Let_def truthy_def)
qed

theorem stacked_gate_sound_witness:
  "\<exists>a b. a \<noteq> b \<and> standing (JStr ''abc'') demo_reviews a = Some True \<and> standing (JStr ''abc'') demo_reviews b = Some True"
proof -
  from stacked_gate_sound[OF demo_command] obtain repo_doc pr reviews where
    a: "answers (demo_run demo_reviews) (gh_args (repo_path ''o/r'')) (JObj repo_doc)"
      "answers (demo_run demo_reviews) (gh_args (pr_path ''o/r'' 7)) (JObj pr)"
      "answers (demo_run demo_reviews) (gh_args (reviews_path ''o/r'' 7)) (JArr reviews)" and
    two: "\<not> py_eq (pr_base pr) (get repo_doc ''default_branch'') \<and> (\<forall>r\<in>set reviews. review_shape r) \<longrightarrow>
      (\<exists>a b. a \<noteq> b \<and> standing (pr_head pr) reviews a = Some True \<and> standing (pr_head pr) reviews b = Some True)"
    by blast
  have "repo_doc = [(''default_branch'', JStr ''main'')]" "pr = demo_pr" "reviews = demo_reviews"
    using answers_unique[OF demo_answers(1) a(1)] answers_unique[OF demo_answers(2) a(2)]
      answers_unique[OF demo_answers(3) a(3)] by simp_all
  moreover have "pr_head demo_pr = JStr ''abc''" "\<not> py_eq (pr_base demo_pr) (JStr ''main'')"
    "\<forall>r\<in>set demo_reviews. review_shape r"
    by (simp_all add: pr_head_def pr_base_def or_empty_def truthy_def demo_pr_def demo_reviews_def
        demo_review_def review_shape_def is_str_def)
  ultimately show ?thesis using two by simp
qed

text \<open>C32: the gate is complete. A stacked pull request with a textual head on whose current
  commit two different reviewers stand as approving is accepted with exit code 0.\<close>

theorem stacked_gate_complete:
  assumes "get pr ''base'' = JObj b" "get b ''ref'' = JStr base" "base \<noteq> []"
    and "get pr ''head'' = JObj h" "get h ''sha'' = JStr sha" "sha \<noteq> []"
    and "\<forall>r\<in>set reviews. review_shape r"
    and "standing (JStr sha) reviews x = Some True" "standing (JStr sha) reviews y = Some True" "x \<noteq> y"
  shows "\<exists>msg. evaluate pr reviews d = Inr (0, msg)"
proof -
  from approvals_shape[OF assms(7), of "JStr sha"] obtain ws where
    ws: "approvals_at_head reviews (JStr sha) = Inr ws" "list_all is_str ws"
      "JStr x \<in> set ws" "JStr y \<in> set ws" using assms(8,9) by blast
  have "2 \<le> length ws" by (rule two_distinct_length[OF ws(3,4)]) (use assms(10) in simp)
  moreover have ne: "b \<noteq> []" "h \<noteq> []" using assms(2,5) by auto
  ultimately show ?thesis using ws(2)
    by (auto simp: evaluate_def assms(1-6) or_empty_def truthy_def as_obj_def Let_def ws(1)
        REQUIRED_APPROVALS_def slice10_def join_logins_def)
qed

theorem stacked_gate_complete_witness:
  "\<exists>msg. evaluate [(''base'', JObj [(''ref'', JStr ''stack'')]), (''head'', JObj [(''sha'', JStr ''abc'')])]
     [demo_review ''ann'' ''APPROVED'' ''abc'', demo_review ''bob'' ''APPROVED'' ''abc''] (JStr ''main'')
     = Inr (0, msg)"
  by (rule stacked_gate_complete[where x = "''ann''" and y = "''bob''"])
    (auto simp: standing_def votes_def map_filter_simps vote_def demo_review_def review_shape_def is_str_def)

text \<open>A review of any commit other than the head, wherever it stands in the list, changes
  nothing: an approval is a fact about the commit it names.\<close>

theorem stale_review_ignored:
  assumes "review_shape (JObj r)" and "\<not> py_eq (get r ''commit_id'') head_sha"
  shows "approvals_at_head (before @ JObj r # after) head_sha = approvals_at_head (before @ after) head_sha"
proof -
  have "vote head_sha (JObj r) = None"
    using assms(2) by (auto simp: vote_def split: json.splits)
  then have step: "latest_step head_sha l (JObj r) = Inr l" for l
    using latest_step_vote[OF assms(1)] by simp
  have "latest_reviews (before @ JObj r # after) head_sha l = latest_reviews (before @ after) head_sha l" for l
  proof (induction before arbitrary: l)
    case Nil
    then show ?case by (simp add: step)
  next
    case (Cons x xs)
    then show ?case by (cases "latest_step head_sha l x") auto
  qed
  then show ?thesis by (simp add: approvals_at_head_def)
qed

theorem stale_review_ignored_witness:
  "approvals_at_head [demo_review ''ann'' ''APPROVED'' ''old'', demo_review ''bob'' ''APPROVED'' ''new''] (JStr ''new'')
     = approvals_at_head [demo_review ''bob'' ''APPROVED'' ''new''] (JStr ''new'')"
  using stale_review_ignored[of "[(''state'', JStr ''APPROVED''), (''commit_id'', JStr ''old''),
      (''user'', JObj [(''login'', JStr ''ann'')])]" "JStr ''new''" "[]"
      "[demo_review ''bob'' ''APPROVED'' ''new'']"]
  by (simp add: demo_review_def review_shape_def is_str_def)

text \<open>A payload the code cannot read, here a review list whose first entry is not an object,
  ends in the uncaught exception's exit code 1, the code of a finding, and not in the
  could-not-determine code 2 the module's header promises.\<close>

theorem malformed_review_exits_as_finding:
  assumes "gh (''repos/'' @ repo) = Inr (JObj repo_doc)" "truthy (get repo_doc ''default_branch'')"
    and "gh (''repos/'' @ repo @ ''/pulls/'' @ dec n) = Inr (JObj pr)"
    and "gh (''repos/'' @ repo @ ''/pulls/'' @ dec n @ ''/reviews?per_page=100'') = Inr (JArr (v # reviews))"
    and "\<not> is_dict v" "is_dict (get pr ''base'')" "is_dict (get pr ''head'')"
    and "truthy (pr_base pr)" "truthy (pr_head pr)" "\<not> py_eq (pr_base pr) (get repo_doc ''default_branch'')"
  shows "stacked_main gh repo n = 1"
proof -
  from assms(6,7) obtain b h where bh: "get pr ''base'' = JObj b" "get pr ''head'' = JObj h"
    by (auto simp: is_dict_iff)
  have "latest_step head_sha l v = Inl AttributeError" for head_sha l
    using assms(5) by (cases v) (auto simp: latest_step_def as_obj_def is_dict_def)
  then have "approvals_at_head (v # reviews) head_sha = Inl AttributeError" for head_sha
    by (simp add: approvals_at_head_def)
  moreover have "b \<noteq> []" "h \<noteq> []" using assms(8,9) bh by (auto simp: pr_base_def pr_head_def or_empty_def truthy_def)
  ultimately have "evaluate pr (v # reviews) (get repo_doc ''default_branch'') = Inl AttributeError"
    using assms(8-10) bh
    by (auto simp: evaluate_def pr_base_def pr_head_def or_empty_def truthy_def as_obj_def Let_def)
  then show ?thesis using assms(1-4) by (simp add: stacked_main_def Let_def)
qed

theorem malformed_review_exits_as_finding_witness: "stacked_main (demo_gh [JNull]) ''o/r'' 7 = 1"
  by (rule malformed_review_exits_as_finding)
    (auto simp: demo_gh_def dec_7 is_dict_def truthy_def pr_base_def pr_head_def or_empty_def)

end
