(* ===== verification/ReplayEnv.thy ===== *)
theory ReplayEnv
  imports Regex Files
begin

text \<open>
  \<^verbatim>\<open>src/athanor/check_replay_env.py\<close>: every \<^verbatim>\<open>replay.sh\<close> of a package must require the tool
  variables it uses (\<^verbatim>\<open>${VAR:?..}\<close>) and never default one (\<^verbatim>\<open>${VAR:-..}\<close>, \<^verbatim>\<open>${VAR:=..}\<close>).

  The three regular expressions are the code's, run by the engine of theory \<open>Regex\<close>; the
  specification below says what they find in plain terms. A problem is the data its message
  carries.
\<close>

section \<open>The model\<close>

definition TOOL_ENV_VARS :: "string list" where
  "TOOL_ENV_VARS = [''YOSYS_BIN'', ''STA_BIN'', ''OPENSTA'', ''OPENSTA_BIN'', ''ABC_BIN'', ''LIBERTY'']"

definition used_rx :: "string \<Rightarrow> rx" where
  "used_rx var = rseq [rchar CHR ''$'', ropt (rchar CHR ''{''), rlit var, RAssert WordB]"

definition required_rx :: "string \<Rightarrow> rx" where
  "required_rx var =
     rseq [rlit ''${'', rlit var, RStar rspace, ropt (rchar CHR '':''), rchar CHR ''?'']"

definition defaulted_rx :: "string \<Rightarrow> rx" where
  "defaulted_rx var =
     rseq [rlit ''${'', rlit var, RStar rspace, ropt (rchar CHR '':''),
           rcls [single CHR ''-'', single CHR ''='']]"

definition used_var :: "str \<Rightarrow> string \<Rightarrow> bool" where
  "used_var text var = rx_search (used_rx var) text"

definition required_var :: "str \<Rightarrow> string \<Rightarrow> bool" where
  "required_var text var = rx_search (required_rx var) text"

text \<open>The text of the match, which the message quotes.\<close>

definition defaulted_var :: "str \<Rightarrow> string \<Rightarrow> str option" where
  "defaulted_var text var =
     map_option (\<lambda>(a, b). matched a b) (search_from (defaulted_rx var) [] text)"

datatype env_problem =
    EnvUnreadable path
  | EnvDefaulted path string str
  | EnvNotRequired path string

definition env_check_var :: "path \<Rightarrow> str \<Rightarrow> string \<Rightarrow> env_problem list" where
  "env_check_var rel text var =
     (if \<not> used_var text var then []
      else (case defaulted_var text var of
        Some m \<Rightarrow> [EnvDefaulted rel var m]
      | None \<Rightarrow> if \<not> required_var text var then [EnvNotRequired rel var] else []))"

definition env_check_file :: "node \<Rightarrow> path \<Rightarrow> env_problem list" where
  "env_check_file fs replay =
     (case read_text fs replay of
        None \<Rightarrow> [EnvUnreadable replay]
      | Some text \<Rightarrow> concat (map (env_check_var replay text) TOOL_ENV_VARS))"

text \<open>\<open>sorted(root.glob("*/replay.sh"))\<close>.\<close>

definition replay_scripts :: "node \<Rightarrow> path \<Rightarrow> path list" where
  "replay_scripts fs base =
     map (\<lambda>k. base @ [k, ''replay.sh''])
       (filter (\<lambda>k. exists_path fs (base @ [k, ''replay.sh''])) (sort (map fst (list_dir fs base))))"

definition env_check :: "node \<Rightarrow> path \<Rightarrow> env_problem list" where
  "env_check fs base =
     (if \<not> is_dir fs base then []
      else concat (map (env_check_file fs) (replay_scripts fs base)))"

text \<open>Exit code and, for a pass, the number of scripts reported.\<close>

definition env_main :: "node \<Rightarrow> path \<Rightarrow> nat \<times> nat" where
  "env_main fs base =
     (if env_check fs base \<noteq> [] then (1, 0)
      else (0, if is_dir fs base then length (replay_scripts fs base) else 0))"

section \<open>Specification: shell parameter expansions\<close>

text \<open>\<open>text\<close> expands \<open>$var\<close> or \<^verbatim>\<open>${var\<close>, the name ending where the variable's does.\<close>

definition expands :: "str \<Rightarrow> string \<Rightarrow> bool" where
  "expands text var \<longleftrightarrow>
     (\<exists>a brace b. text = a @ ''$'' @ brace @ var @ b \<and> brace \<in> {[], ''{''} \<and>
        (b = [] \<or> \<not> is_word (hd b)))"

text \<open>\<open>text\<close> has the expansion \<^verbatim>\<open>${var op\<close>, with an optional colon before the operator.\<close>

definition expands_with :: "str \<Rightarrow> string \<Rightarrow> char \<Rightarrow> bool" where
  "expands_with text var oper \<longleftrightarrow>
     (\<exists>a sp colon b. text = a @ ''${'' @ var @ sp @ colon @ oper # b \<and>
        (\<forall>c\<in>set sp. is_space c) \<and> colon \<in> {[], '':''})"

definition word_ended :: "string \<Rightarrow> bool" where
  "word_ended var \<longleftrightarrow> var \<noteq> [] \<and> is_word (last var)"

lemma tool_vars_word_ended: "var \<in> set TOOL_ENV_VARS \<Longrightarrow> word_ended var"
  by (auto simp: TOOL_ENV_VARS_def word_ended_def char_class_defs)

lemma used_var_iff:
  assumes "word_ended var"
  shows "used_var text var \<longleftrightarrow> expands text var"
proof -
  have w: "opt_word (rev var @ r)" for r
    using assms by (cases var rule: rev_cases) (auto simp: word_ended_def opt_word_def)
  have b: "opt_word b \<longleftrightarrow> \<not> (b = [] \<or> \<not> is_word (hd b))" for b
    by (cases b) (auto simp: opt_word_def)
  have m: "rx_matches (used_rx var) pre m post \<longleftrightarrow>
      (\<exists>brace. m = ''$'' @ brace @ var \<and> brace \<in> {[], ''{''} \<and> (post = [] \<or> \<not> is_word (hd post)))"
    (is "?L \<longleftrightarrow> ?R") for pre m post
  proof
    assume ?L
    then obtain brace where "m = ''$'' @ brace @ var" "brace = [] \<or> brace = ''{''"
        "holds_at WordB (rev var @ rev brace @ rev ''$'' @ pre, post)"
      unfolding used_rx_def rseq.simps m_seq_iff rx_build_simps m_assert_iff by auto
    with w b show ?R by auto
  next
    assume ?R
    then show ?L
      unfolding used_rx_def rseq.simps m_seq_iff rx_build_simps m_assert_iff using w b by auto
  qed
  have "used_var text var \<longleftrightarrow>
      (\<exists>a brace b. text = a @ (''$'' @ brace @ var) @ b \<and> brace \<in> {[], ''{''} \<and> (b = [] \<or> \<not> is_word (hd b)))"
    unfolding used_var_def rx_search_iff m by blast
  then show ?thesis by (simp add: expands_def)
qed

text \<open>What the three patterns match, part by part.\<close>

lemma guard_matches:
  "rx_matches (rseq [rlit ''${'', rlit var, RStar rspace, ropt (rchar CHR '':''), last_part]) pre m post \<longleftrightarrow>
     (\<exists>sp colon z. m = ''${'' @ var @ sp @ colon @ z \<and> (\<forall>c\<in>set sp. is_space c) \<and> colon \<in> {[], '':''} \<and>
        rx_matches last_part (rev (''${'' @ var @ sp @ colon) @ pre) z post)" (is "?L \<longleftrightarrow> ?R")
proof
  assume ?L
  then obtain s t u v w where "m = s @ t @ u @ v @ w" "s = ''${''" "t = var" "\<forall>c\<in>set u. is_space c"
      "v = [] \<or> v = '':''" "rx_matches last_part (rev v @ rev u @ rev t @ rev s @ pre) w post"
    unfolding rseq.simps m_seq_iff rx_build_simps by blast
  then have "m = ''${'' @ var @ u @ v @ w \<and> (\<forall>c\<in>set u. is_space c) \<and> v \<in> {[], '':''} \<and>
        rx_matches last_part (rev (''${'' @ var @ u @ v) @ pre) w post"
    by auto
  then show ?R by blast
next
  assume ?R
  then obtain sp colon z where m: "m = ''${'' @ var @ sp @ colon @ z" "\<forall>c\<in>set sp. is_space c"
      "colon = [] \<or> colon = '':''" "rx_matches last_part (rev colon @ rev sp @ rev var @ rev ''${'' @ pre) z post"
    by auto
  show ?L unfolding rseq.simps m_seq_iff rx_build_simps
    using m by blast
qed

lemma required_var_iff: "required_var text var \<longleftrightarrow> expands_with text var CHR ''?''"
proof -
  have "required_var text var \<longleftrightarrow> (\<exists>a sp colon b. text = a @ (''${'' @ var @ sp @ colon @ ''?'') @ b \<and>
      (\<forall>c\<in>set sp. is_space c) \<and> colon \<in> {[], '':''})"
    unfolding required_var_def rx_search_iff required_rx_def guard_matches rchar_matches by blast
  then show ?thesis by (simp add: expands_with_def)
qed

lemma default_class_matches:
  "rx_matches (rcls [single CHR ''-'', single CHR ''='']) pre z post \<longleftrightarrow> z = ''-'' \<or> z = ''=''"
  by (auto simp: rcls_def rx_simps in_class_def in_ranges_def in_range_def single_def)

lemma defaulted_var_iff:
  "defaulted_var text var \<noteq> None \<longleftrightarrow>
     expands_with text var CHR ''-'' \<or> expands_with text var CHR ''=''"
proof -
  have "defaulted_var text var \<noteq> None \<longleftrightarrow> rx_search (defaulted_rx var) text"
    by (simp add: defaulted_var_def rx_search_def)
  also have "\<dots> \<longleftrightarrow> (\<exists>a sp colon z b. text = a @ (''${'' @ var @ sp @ colon @ z) @ b \<and>
      (\<forall>c\<in>set sp. is_space c) \<and> colon \<in> {[], '':''} \<and> (z = ''-'' \<or> z = ''=''))"
    unfolding rx_search_iff defaulted_rx_def guard_matches default_class_matches by blast
  also have "\<dots> \<longleftrightarrow> (\<exists>c\<in>{CHR ''-'', CHR ''=''}. \<exists>a sp colon b. text = a @ (''${'' @ var @ sp @ colon @ [c]) @ b \<and>
      (\<forall>c\<in>set sp. is_space c) \<and> colon \<in> {[], '':''})"
    by blast
  finally show ?thesis by (simp add: expands_with_def)
qed
text \<open>What the contract asks of one script.\<close>

definition script_ok :: "str \<Rightarrow> bool" where
  "script_ok text \<longleftrightarrow> (\<forall>var\<in>set TOOL_ENV_VARS. expands text var \<longrightarrow>
     expands_with text var CHR ''?'' \<and> \<not> expands_with text var CHR ''-'' \<and> \<not> expands_with text var CHR ''='')"

lemma env_check_var_Nil:
  "word_ended var \<Longrightarrow> env_check_var rel text var = [] \<longleftrightarrow>
     (expands text var \<longrightarrow> expands_with text var CHR ''?''
        \<and> \<not> expands_with text var CHR ''-'' \<and> \<not> expands_with text var CHR ''='')"
  using defaulted_var_iff[of "text" var]
  by (auto simp: env_check_var_def used_var_iff required_var_iff split: option.splits)

lemma env_check_file_Nil:
  "env_check_file fs p = [] \<longleftrightarrow> (\<exists>text. read_text fs p = Some text \<and> script_ok text)"
  by (auto simp: env_check_file_def concat_map_Nil_iff script_ok_def env_check_var_Nil tool_vars_word_ended
      split: option.splits simp del: concat_eq_Nil_conv)

text \<open>C15: the gate passes a tree exactly when every package's \<^verbatim>\<open>replay.sh\<close> can be read and, for each
  tool variable it expands, contains the fail-if-unset form and no defaulting form.\<close>

theorem env_gate_exact:
  "fst (env_main fs base) = 0 \<longleftrightarrow>
     (if is_dir fs base
      then list_all (\<lambda>p. case read_text fs p of None \<Rightarrow> False | Some text \<Rightarrow> script_ok text) (replay_scripts fs base)
      else True)"
  unfolding env_main_def env_check_def
  by (auto simp: list_all_iff concat_map_Nil_iff env_check_file_Nil simp del: concat_eq_Nil_conv
      split: option.splits)

end
