(* ===== verification/PublicReadme.thy ===== *)
theory PublicReadme
  imports Regex Files
begin

text \<open>
  \<^verbatim>\<open>src/athanor/check_public_readme.py\<close>: the front page is short, has its title and its sections in
  order, uses no banned phrase and links only to artifacts that exist. \<open>_fail\<close> raises SystemExit,
  so the first failure ends the run: the left side of a sum, with the data of its message.
\<close>

section \<open>The model\<close>

definition MAX_LINES :: nat where
  "MAX_LINES = 90"

definition EXPECTED_TITLE :: string where
  "EXPECTED_TITLE = ''# Athanor OpenC910 Results''"

definition REQUIRED_SECTIONS :: "string list" where
  "REQUIRED_SECTIONS =
     [''## Status'', ''## Evidence Status'', ''## Evidence Ledger'', ''## Evidence Bar'', ''## Replay'',
      ''## Upstream'']"

definition BANNED_PHRASES :: "string list" where
  "BANNED_PHRASES =
     [''Evidence Surface'', ''Current read'', ''TODO'', ''Awaiting'', ''Next Ambitious'',
      ''Proof Artifacts Awaiting'', ''Gaps And Next Work'', ''LLM'', ''slop'', ''roadmap'',
      ''still need'', ''active exploration'', ''How This'', ''How To'']"

datatype readme_failure =
    ReadmeUnreadable
  | TooLong nat
  | WrongTitle
  | MissingSection string
  | OutOfOrder string
  | BannedPhrase string
  | DeadLink string

text \<open>\<open>lines.index(x)\<close>; \<open>None\<close> is the ValueError.\<close>

fun first_index :: "'a list \<Rightarrow> 'a \<Rightarrow> nat option" where
  "first_index [] y = None"
| "first_index (x # xs) y = (if x = y then Some 0 else map_option Suc (first_index xs y))"

text \<open>The loop over the sections; the cursor \<open>-1\<close> before the first one is an \<open>int\<close>.\<close>

fun check_sections :: "string list \<Rightarrow> int \<Rightarrow> string list \<Rightarrow> readme_failure + unit" where
  "check_sections lines cursor [] = Inr ()"
| "check_sections lines cursor (sec # secs) =
     (case first_index lines sec of
        None \<Rightarrow> Inl (MissingSection sec)
      | Some index \<Rightarrow>
          if int index \<le> cursor then Inl (OutOfOrder sec)
          else check_sections lines (int index) secs)"

definition banned_in :: "str \<Rightarrow> string option" where
  "banned_in t = find (\<lambda>phrase. contains (lower t) (lower phrase)) BANNED_PHRASES"

definition link_rx :: rx where
  "link_rx = rseq [rlit ''](athanor_artifacts/'', rplus (rnot [single CHR '')'']), rchar CHR '')'']"

text \<open>Group 1 of a match: the text between the parentheses.\<close>

definition link_target :: "string \<Rightarrow> string" where
  "link_target m = butlast (drop 2 m)"

definition readme_check :: "node \<Rightarrow> readme_failure + unit" where
  "readme_check fs =
     (case read_text fs [''README.md''] of
        None \<Rightarrow> Inl ReadmeUnreadable
      | Some t \<Rightarrow>
          let lines = splitlines t in
          if MAX_LINES < length lines then Inl (TooLong (length lines))
          else if lines = [] \<or> hd lines \<noteq> EXPECTED_TITLE then Inl WrongTitle
          else (case check_sections lines (-1) REQUIRED_SECTIONS of
            Inl e \<Rightarrow> Inl e
          | Inr _ \<Rightarrow>
              (case banned_in t of
                 Some phrase \<Rightarrow> Inl (BannedPhrase phrase)
               | None \<Rightarrow>
                   (case find (\<lambda>g. \<not> exists_path fs (join_path [] g)) (map link_target (findall link_rx t)) of
                      Some g \<Rightarrow> Inl (DeadLink g)
                    | None \<Rightarrow> Inr ()))))"

section \<open>Specification\<close>

text \<open>The first lines on which the sections stand, in this order.\<close>

definition sections_in_order :: "string list \<Rightarrow> string list \<Rightarrow> bool" where
  "sections_in_order lines secs \<longleftrightarrow>
     list_all (\<lambda>s. s \<in> set lines) secs \<and>
     sorted_wrt (<) (map (\<lambda>s. the (first_index lines s)) secs)"

lemma first_index_None: "first_index xs y = None \<longleftrightarrow> y \<notin> set xs"
  by (induction xs) auto

lemma first_index_Some:
  "first_index xs y = Some i \<Longrightarrow> i < length xs \<and> xs ! i = y \<and> y \<notin> set (take i xs)"
  by (induction xs arbitrary: i) (auto split: if_splits)

lemma check_sections_ok:
  "check_sections lines cursor secs = Inr () \<longleftrightarrow>
     sections_in_order lines secs \<and> (\<forall>s\<in>set secs. cursor < int (the (first_index lines s)))"
proof (induction secs arbitrary: cursor)
  case Nil
  show ?case by (simp add: sections_in_order_def)
next
  case (Cons s secs)
  show ?case
  proof (cases "first_index lines s")
    case None
    moreover from None have "s \<notin> set lines" by (simp add: first_index_None)
    ultimately show ?thesis by (simp add: sections_in_order_def)
  next
    case (Some i)
    then have "s \<in> set lines" using first_index_None[of lines s] by auto
    have "cursor < int i \<Longrightarrow> (\<forall>s\<in>set secs. int i < int (the (first_index lines s))) \<Longrightarrow>
        (\<forall>s\<in>set secs. cursor < int (the (first_index lines s)))" by force
    with Some Cons.IH[of "int i"] \<open>s \<in> set lines\<close> show ?thesis
      by (auto simp: sections_in_order_def)
  qed
qed

text \<open>The check passes exactly the front pages that can be read, have at most ninety lines, start
  with the title, have every required section, first occurrences in the required order, contain
  no banned phrase in any case, and link only to existing artifacts.\<close>

theorem readme_check_exact:
  "readme_check fs = Inr () \<longleftrightarrow>
     (\<exists>t. read_text fs [''README.md''] = Some t \<and>
        length (splitlines t) \<le> MAX_LINES \<and>
        take 1 (splitlines t) = [EXPECTED_TITLE] \<and>
        sections_in_order (splitlines t) REQUIRED_SECTIONS \<and>
        list_all (\<lambda>p. \<not> contains (lower t) (lower p)) BANNED_PHRASES \<and>
        list_all (\<lambda>m. exists_path fs (join_path [] (link_target m))) (findall link_rx t))"
proof -
  have hd_take: "take 1 xs = [y] \<longleftrightarrow> xs \<noteq> [] \<and> hd xs = y" for xs :: "string list" and y
    by (cases xs) auto
  have secs: "check_sections lines (-1) secs = Inr () \<longleftrightarrow> sections_in_order lines secs" for lines secs
    unfolding check_sections_ok by simp
  show ?thesis
  proof (cases "read_text fs [''README.md'']")
    case None
    then show ?thesis by (simp add: readme_check_def)
  next
    case (Some t)
    show ?thesis
      unfolding readme_check_def Some hd_take secs[symmetric] banned_in_def
      by (auto simp: Let_def list_all_iff find_None_iff find_Some_iff not_less split: sum.splits option.splits)
  qed
qed

end
