(* ===== verification/Denylist.thy ===== *)
theory Denylist
  imports Subprocess Sha256
begin

text \<open>
  \<^verbatim>\<open>src/athanor/gen_fleet_handle_denylist.py\<close>: the handles derived from the roster document, their
  integrity stamp, and the document the generator writes. \<open>gen_main\<close> takes the two \<^verbatim>\<open>git\<close> calls as
  functions from their arguments to an error text or the output, \<open>gen_command\<close> reads them off the
  processes the script starts; an exception is the left side of a sum.
\<close>

section \<open>The model\<close>

definition GENERIC_ROLE_TERMS :: "string list" where
  "GENERIC_ROLE_TERMS =
     [''cto'', ''platform'', ''research'', ''qa'', ''builder'',
      ''gpu'', ''gpu-agent'', ''gpu-research'', ''qa-agent'',
      ''orchestrator'', ''dogfood'', ''founder'']"

definition KNOWN_ALT_HANDLES :: "string list" where
  "KNOWN_ALT_HANDLES = [''aidan'' @ ''by'', ''hongsk'' @ ''sam'']"

text \<open>The values a \<open>for\<close> loop takes from a JSON value.\<close>

definition iter_values :: "json \<Rightarrow> json list res" where
  "iter_values v = (case v of
       JObj kvs \<Rightarrow> Inr (map (\<lambda>(k, _). JStr k) kvs)
     | JArr xs \<Rightarrow> Inr xs
     | JStr s \<Rightarrow> Inr (map (\<lambda>c. JStr [c]) s)
     | _ \<Rightarrow> Inl TypeError)"

text \<open>\<open>names.add(v)\<close> for each value: an unhashable one raises.\<close>

definition add_name :: "json \<Rightarrow> json list res" where
  "add_name v = (if hashable v then Inr [v] else Inl TypeError)"

text \<open>A key of \<^verbatim>\<open>_renames\<close>: skipped when it starts with an underscore.\<close>

definition add_alias :: "json \<Rightarrow> json list res" where
  "add_alias v =
     (case v of JStr s \<Rightarrow> Inr (if startswith s ''_'' then [] else [v]) | _ \<Rightarrow> Inl AttributeError)"

definition add_display_name :: "json \<Rightarrow> json list res" where
  "add_display_name role =
     (case role of
        JObj r \<Rightarrow> if truthy (get r ''bot_display_name'') then add_name (get r ''bot_display_name'') else Inr []
      | _ \<Rightarrow> Inr [])"

definition role_values :: "json \<Rightarrow> json list res" where
  "role_values v = (case v of JObj kvs \<Rightarrow> Inr (map snd kvs) | _ \<Rightarrow> Inl AttributeError)"

definition collect :: "('a \<Rightarrow> 'b list res) \<Rightarrow> 'a list \<Rightarrow> 'b list res" where
  "collect f xs = bind_res (map_res f xs) (\<lambda>yss. Inr (concat yss))"

definition lower_name :: "json \<Rightarrow> string res" where
  "lower_name v = (case v of JStr s \<Rightarrow> Inr (lower s) | _ \<Rightarrow> Inl AttributeError)"

definition derive_handles :: "obj \<Rightarrow> string list \<Rightarrow> string list res" where
  "derive_handles roles extra_names =
     bind_res (iter_values (get_or (JObj []) roles ''roles'')) (\<lambda>role_keys.
     bind_res (collect add_name role_keys) (\<lambda>n1.
     bind_res (iter_values (get_or (JObj []) roles ''humans'')) (\<lambda>human_keys.
     bind_res (collect add_name human_keys) (\<lambda>n2.
     bind_res (iter_values (get_or (JObj []) roles ''_renames'')) (\<lambda>aliases.
     bind_res (collect add_alias aliases) (\<lambda>n3.
     bind_res (role_values (get_or (JObj []) roles ''roles'')) (\<lambda>role_docs.
     bind_res (collect add_display_name role_docs) (\<lambda>n4.
     bind_res (map_res lower_name (map JStr (extra_names @ KNOWN_ALT_HANDLES) @ n1 @ n2 @ n3 @ n4)) (\<lambda>lowered.
       Inr (sorted_set (filter (\<lambda>n. n \<notin> set GENERIC_ROLE_TERMS) lowered)))))))))))"

definition stamp_for :: "string list \<Rightarrow> string" where
  "stamp_for handles = sha256 (join [NL] (sort handles))"

definition DENYLIST_DOC :: string where
  "DENYLIST_DOC =
     ''Fleet-agent handles that must not appear in published customer '' @
     ''artifacts on this public fork (ATH-3397). GENERATED from the roster '' @
     ''SSOT roles.json (ATH-1343) by athanor/gen_fleet_handle_denylist.py '' @
     ''-- do not hand-edit; regenerate. The gate verifies '' @ [CHR 0x60] @ ''stamp'' @ [CHR 0x60] @ '' against '' @
     [CHR 0x60] @ ''handles'' @ [CHR 0x60] @ '' on every run (integrity); freshness vs the live roster is '' @
     ''a fleet-level re-generation obligation.''"

definition denylist_payload :: "string list \<Rightarrow> string \<Rightarrow> string \<Rightarrow> json" where
  "denylist_payload handles source_commit source_ref =
     JObj [(''_doc'', JStr DENYLIST_DOC),
           (''source'', JObj [(''repo'', JStr ''athanor-builder''),
              (''files'', JArr [JStr ''tools/agent-handoff/roles.json (roles + humans + _renames)'']),
              (''commit'', JStr source_commit), (''ref'', JStr source_ref)]),
           (''handles'', JArr (map JStr handles)),
           (''stamp'', JStr (stamp_for handles))]"

definition build_denylist :: "obj \<Rightarrow> string list \<Rightarrow> string \<Rightarrow> string \<Rightarrow> json res" where
  "build_denylist roles extra_names source_commit source_ref =
     bind_res (derive_handles roles extra_names) (\<lambda>handles.
       Inr (denylist_payload handles source_commit source_ref))"

definition ROLES_PATH :: string where
  "ROLES_PATH = ''tools/agent-handoff/roles.json''"

text \<open>The text \<open>main\<close> writes to \<open>--out\<close>. \<open>rev_parse\<close> and \<open>git_show\<close> answer for the source repository.\<close>

definition gen_main ::
  "(string \<Rightarrow> string + string) \<Rightarrow> (string \<Rightarrow> string \<Rightarrow> string + string) \<Rightarrow> string \<Rightarrow> string res" where
  "gen_main rev_parse git_show source_ref =
     (case rev_parse source_ref of
        Inl err \<Rightarrow> Inl (ToolError err)
      | Inr out \<Rightarrow>
          let commit = strip out in
          (case git_show commit ROLES_PATH of
             Inl err \<Rightarrow> Inl (ToolError err)
           | Inr body \<Rightarrow>
               (case json_loads body of
                  None \<Rightarrow> Inl (ValueError ''json'')
                | Some (JObj roles) \<Rightarrow>
                    bind_res (build_denylist roles [] commit source_ref) (\<lambda>payload.
                      Inr (json_dumps (indent_style 2) payload @ [NL]))
                | Some _ \<Rightarrow> Inl AttributeError)))"

text \<open>The two calls. A \<^verbatim>\<open>git\<close> that cannot be started is an uncaught exception, here with its text.\<close>

definition git_call :: "process \<Rightarrow> string list \<Rightarrow> (string \<Rightarrow> string) \<Rightarrow> string + string" where
  "git_call run argv complain =
     (case run argv of
        Inl exc \<Rightarrow> Inl exc
      | Inr out \<Rightarrow> if returncode out \<noteq> 0 then Inl (complain (strip (stderr out))) else Inr (stdout out))"

definition rev_parse_args :: "string \<Rightarrow> string \<Rightarrow> string list" where
  "rev_parse_args source_repo source_ref = [''git'', ''-C'', source_repo, ''rev-parse'', ''--verify'', source_ref]"

definition rev_parse :: "process \<Rightarrow> string \<Rightarrow> string \<Rightarrow> string + string" where
  "rev_parse run source_repo source_ref =
     git_call run (rev_parse_args source_repo source_ref)
       (\<lambda>err. ''gen_fleet_handle_denylist: cannot resolve '' @ repr_str source_ref @ '' in '' @ source_repo @ '': '' @ err)"

definition show_args :: "string \<Rightarrow> string \<Rightarrow> string \<Rightarrow> string list" where
  "show_args repo commit path = [''git'', ''-C'', repo, ''show'', commit @ '':'' @ path]"

definition git_show :: "process \<Rightarrow> string \<Rightarrow> string \<Rightarrow> string \<Rightarrow> string + string" where
  "git_show run repo commit path =
     git_call run (show_args repo commit path)
       (\<lambda>err. ''gen_fleet_handle_denylist: cannot read '' @ path @ '' at '' @ take_points 12 commit @ '' from '' @
          repo @ '': '' @ err)"

definition gen_command :: "process \<Rightarrow> string \<Rightarrow> string \<Rightarrow> string res" where
  "gen_command run source_repo = gen_main (rev_parse run source_repo) (git_show run source_repo)"

lemma git_call_Inr:
  "git_call run argv complain = Inr s \<longleftrightarrow> (\<exists>out. run argv = Inr out \<and> returncode out = 0 \<and> s = stdout out)"
  by (auto simp: git_call_def split: sum.splits)

text \<open>A written denylist is the one of the roster at the commit the reference resolved to, and it
  says so: both processes ended with code 0, and the roster is read at that commit and nowhere else.\<close>

lemma gen_command_reads_commit:
  assumes "gen_command run source_repo source_ref = Inr written"
  obtains out roles handles where
    "run (rev_parse_args source_repo source_ref) = Inr out" "returncode out = 0"
    "answers run (show_args source_repo (strip (stdout out)) ROLES_PATH) (JObj roles)"
    "derive_handles roles [] = Inr handles"
    "written = json_dumps (indent_style 2) (denylist_payload handles (strip (stdout out)) source_ref) @ [NL]"
  using assms unfolding gen_command_def gen_main_def Let_def
  by (auto simp: rev_parse_def git_show_def git_call_Inr answers_def json_answer_def build_denylist_def bind_res_eq_Inr
      split: sum.splits option.splits json.splits)

section \<open>Specification: the names of a roster\<close>

definition keys_of :: "obj \<Rightarrow> string \<Rightarrow> string list" where
  "keys_of roles sec = (case get roles sec of JObj kvs \<Rightarrow> map fst kvs | _ \<Rightarrow> [])"

definition display_names :: "obj \<Rightarrow> string list" where
  "display_names roles =
     (case get roles ''roles'' of
        JObj kvs \<Rightarrow> concat (map (\<lambda>(_, v). case v of
            JObj r \<Rightarrow> (case get r ''bot_display_name'' of JStr s \<Rightarrow> if s = [] then [] else [s] | _ \<Rightarrow> []) | _ \<Rightarrow> []) kvs)
      | _ \<Rightarrow> [])"

definition roster_names :: "obj \<Rightarrow> string list" where
  "roster_names roles = keys_of roles ''roles'' @ keys_of roles ''humans''
     @ filter (\<lambda>a. \<not> startswith a ''_'') (keys_of roles ''_renames'') @ display_names roles"

text \<open>A roster as its owner documents it: three sections that are objects or absent, and display
  names that are texts.\<close>

definition section_ok :: "obj \<Rightarrow> string \<Rightarrow> bool" where
  "section_ok roles sec = (case map_of roles sec of None \<Rightarrow> True | Some v \<Rightarrow> is_dict v)"

definition role_doc_ok :: "json \<Rightarrow> bool" where
  "role_doc_ok v = (case v of JObj r \<Rightarrow> \<not> truthy (get r ''bot_display_name'') \<or> is_str (get r ''bot_display_name'')
                     | _ \<Rightarrow> True)"

definition roster_ok :: "obj \<Rightarrow> bool" where
  "roster_ok roles \<longleftrightarrow> section_ok roles ''roles'' \<and> section_ok roles ''humans'' \<and> section_ok roles ''_renames''
     \<and> (case get roles ''roles'' of JObj kvs \<Rightarrow> list_all (\<lambda>(k, v). role_doc_ok v) kvs | _ \<Rightarrow> True)"

section \<open>Lemmas\<close>

lemma collect_simps [simp]:
  "collect f [] = Inr []"
  "collect f (x # xs) = bind_res (f x) (\<lambda>ys. bind_res (collect f xs) (\<lambda>zs. Inr (ys @ zs)))"
proof -
  show "collect f (x # xs) = bind_res (f x) (\<lambda>ys. bind_res (collect f xs) (\<lambda>zs. Inr (ys @ zs)))"
    by (cases "f x"; cases "map_res f xs") (auto simp: collect_def)
qed (simp add: collect_def)

lemma collect_add_name: "collect add_name (map JStr ks) = Inr (map JStr ks)"
  by (induction ks) (auto simp: add_name_def)

lemma collect_add_alias:
  "collect add_alias (map JStr ks) = Inr (map JStr (filter (\<lambda>a. \<not> startswith a ''_'') ks))"
  by (induction ks) (auto simp: add_alias_def)

lemma map_res_lower_name: "map_res lower_name (map JStr ks) = Inr (map lower ks)"
  by (induction ks) (auto simp: lower_name_def)

lemma add_display_name_ok:
  "role_doc_ok v \<Longrightarrow> add_display_name v = Inr (map JStr
     (case v of JObj r \<Rightarrow> (case get r ''bot_display_name'' of JStr s \<Rightarrow> if s = [] then [] else [s] | _ \<Rightarrow> []) | _ \<Rightarrow> []))"
  by (auto simp: add_display_name_def role_doc_ok_def add_name_def truthy_def is_str_def split: json.splits)

lemma collect_display:
  "list_all (\<lambda>(k, v). role_doc_ok v) kvs \<Longrightarrow>
     collect add_display_name (map snd kvs) = Inr (map JStr (concat (map (\<lambda>(_, v). case v of
            JObj r \<Rightarrow> (case get r ''bot_display_name'' of JStr s \<Rightarrow> if s = [] then [] else [s] | _ \<Rightarrow> []) | _ \<Rightarrow> []) kvs)))"
  by (induction kvs) (auto simp: add_display_name_ok)

lemma section_ok_cases:
  assumes "section_ok roles sec"
  obtains kvs where "get_or (JObj []) roles sec = JObj kvs" "map fst kvs = keys_of roles sec"
    "get roles sec = JObj kvs \<or> kvs = []"
  using assms that
  by (cases "map_of roles sec") (auto simp: section_ok_def get_or_def keys_of_def get_def is_dict_iff)

lemma derive_handles_eq:
  assumes "roster_ok roles"
  shows "derive_handles roles extra =
    Inr (sorted_set (filter (\<lambda>n. n \<notin> set GENERIC_ROLE_TERMS)
      (map lower (extra @ KNOWN_ALT_HANDLES @ roster_names roles))))"
proof -
  have ok: "section_ok roles ''roles''" "section_ok roles ''humans''" "section_ok roles ''_renames''"
    using assms by (simp_all add: roster_ok_def)
  obtain rs where rs: "get_or (JObj []) roles ''roles'' = JObj rs" "map fst rs = keys_of roles ''roles''"
      "get roles ''roles'' = JObj rs \<or> rs = []" by (rule section_ok_cases[OF ok(1)])
  obtain hs where hs: "get_or (JObj []) roles ''humans'' = JObj hs" "map fst hs = keys_of roles ''humans''"
    by (rule section_ok_cases[OF ok(2)])
  obtain as where as: "get_or (JObj []) roles ''_renames'' = JObj as" "map fst as = keys_of roles ''_renames''"
    by (rule section_ok_cases[OF ok(3)])
  have it: "iter_values (JObj kvs) = Inr (map JStr (map fst kvs))" for kvs
    by (simp add: iter_values_def case_prod_unfold)
  have "display_names roles = concat (map (\<lambda>(_, v). case v of
            JObj r \<Rightarrow> (case get r ''bot_display_name'' of JStr s \<Rightarrow> if s = [] then [] else [s] | _ \<Rightarrow> []) | _ \<Rightarrow> []) rs)"
    using rs(1,3) by (auto simp: display_names_def get_def get_or_def split: option.splits json.splits)
  moreover have "list_all (\<lambda>(k, v). role_doc_ok v) rs"
    using rs(3) assms by (auto simp: roster_ok_def)
  ultimately have disp: "collect add_display_name (map snd rs) = Inr (map JStr (display_names roles))"
    by (simp add: collect_display)
  let ?names = "extra @ KNOWN_ALT_HANDLES @ roster_names roles"
  have "map JStr (extra @ KNOWN_ALT_HANDLES) @ map JStr (keys_of roles ''roles'') @ map JStr (keys_of roles ''humans'') @
      map JStr (filter (\<lambda>a. \<not> startswith a ''_'') (keys_of roles ''_renames'')) @ map JStr (display_names roles)
      = map JStr ?names"
    by (simp add: roster_names_def)
  then show ?thesis
    unfolding derive_handles_def rs(1) hs(1) as(1) it bind_res_simps rs(2) hs(2) as(2)
      collect_add_name collect_add_alias role_values_def json.case disp
    by (simp only: bind_res_simps map_res_lower_name)
qed

text \<open>Whatever the roster, a returned list is sorted, distinct and lowercase.\<close>

lemma map_res_lower_lower: "map_res lower_name vs = Inr ls \<Longrightarrow> \<forall>l\<in>set ls. lower l = l"
  by (induction vs arbitrary: ls) (auto simp: bind_res_eq_Inr lower_name_def split: json.splits)

lemma derive_handles_shape:
  assumes "derive_handles roles extra = Inr hs"
  shows "sorted hs \<and> distinct hs \<and> (\<forall>h\<in>set hs. lower h = h)"
proof -
  from assms obtain vs ls where ls: "map_res lower_name vs = Inr ls"
      "hs = sorted_set (filter (\<lambda>n. n \<notin> set GENERIC_ROLE_TERMS) ls)"
    unfolding derive_handles_def bind_res_eq_Inr by blast
  with map_res_lower_lower[OF ls(1)] show ?thesis by auto
qed


definition demo_roster :: obj where
  "demo_roster = [(''roles'', JObj [(''builder'', JObj [(''bot_display_name'', JStr ''Zed'')]), (''Kim'', JNull)]),
                  (''_renames'', JObj [(''_note'', JStr ''x''), (''old'', JStr ''kim'')])]"


end
