(* ===== verification/ExportGate.thy ===== *)
theory ExportGate
  imports Regex Denylist
begin

text \<open>
  \<^verbatim>\<open>src/athanor/export_safety_gate.py\<close>: the scan of the committed bytes for leaks, in a tier that
  blocks and a tier that only warns, the loader of the handle denylist, and the verdict.

  The two \<^verbatim>\<open>git\<close> calls and the run of the receipt verifier are what the record \<open>gate_env\<close> answers.
  \<open>tier\<close> is the value of the module global \<^verbatim>\<open>HANDLE_FINDING_TIER\<close> when the scan runs.
\<close>

section \<open>The pattern tables\<close>

text \<open>A literal written with both cases of each letter, \<^verbatim>\<open>[Nn][Vv]..\<close>.\<close>

definition either_case :: "string \<Rightarrow> rx" where
  "either_case s = rseq (map (\<lambda>c. rcls [single (to_upper c), single c]) s)"

definition alnum :: rx where
  "alnum = rcls [AZ, az, d09]"

definition BLOCK_ALWAYS :: "(string \<times> rx) list" where
  "BLOCK_ALWAYS =
     [(''internal workdir path'', rlit (''/work'' @ ''dir'')),
      (''cloud build username'', rlit (''azure'' @ ''user'')),
      (''internal ops repo'', rlit (''athanor-'' @ ''kairos-runall'')),
      (''internal Kairos namespace'',
         rseq [RAssert (NotBehindText ''athanor-''), rlit (''kai'' @ ''ros.''), rcls [AZ, az, single CHR ''_'']]),
      (''confidential customer name'', either_case ''nvidia''),
      (''confidential customer name'', either_case ''annapurna''),
      (''AI-tool name'', rlit_ci (''cla'' @ ''ude'')),
      (''AI-vendor name'', rlit_ci (''anthro'' @ ''pic'')),
      (''AI-tool authorship footer'',
         rseq [rlit_ci ''generated with '', ropt (rcls_ci [single CHR ''['']), rlit_ci (''cla'' @ ''ude'')]),
      (''GitHub token'',
         rseq [rlit ''gh'', rcls (map single ''posru''), rchar CHR ''_'', rat_least 20 alnum]),
      (''GitHub fine-grained PAT'',
         rseq [rlit ''github_pat_'', rat_least 20 (rcls [AZ, az, d09, single CHR ''_''])]),
      (''Slack token'',
         rseq [rlit ''xox'', rcls (map single ''baprs''), rchar CHR ''-'',
               rat_least 10 (rcls [AZ, az, d09, single CHR ''-''])]),
      (''AWS access key id'', rseq [rlit ''AKIA'', rtimes 16 (rcls [d09, AZ])]),
      (''Anthro'' @ ''pic API key'',
         rseq [rlit ''sk-ant-'', rat_least 20 (rcls [AZ, az, d09, single CHR ''_'', single CHR ''-''])]),
      (''OpenAI API key'', rseq [rlit ''sk-'', rat_least 20 alnum]),
      (''private key block'',
         rseq [rlit ''-----BEGIN '', RStar (rcls [AZ, single CHR '' '']), rlit ''PRIVATE KEY-----''])]"

definition BLOCK_SCOPED :: "(string \<times> rx) list" where
  "BLOCK_SCOPED =
     [(''home directory path'', rseq [rlit (''/ho'' @ ''me/''), rplus (rcls [AZ, az, d09, single CHR ''.'', single CHR ''_'', single CHR ''-''])]),
      (''macOS home path'', rseq [rlit (''/Use'' @ ''rs/''), rplus (rcls [AZ, az, d09, single CHR ''.'', single CHR ''_'', single CHR ''-''])]),
      (''tmp / tool-cache path'',
         rseq [rlit (''/t'' @ ''mp/''),
               rplus (rcls [AZ, az, d09, single CHR ''.'', single CHR ''_'', single CHR ''/'', single CHR ''-''])])]"

definition OUR_ADDED_PREFIXES :: "string list" where
  "OUR_ADDED_PREFIXES =
     [''athanor/'', ''athanor_artifacts/'', ''generated_rtl_capture/'', ''docs/customer/'', ''README.md'']"

text \<open>Label, pattern, and the pattern that excludes a line.\<close>

definition WARN_PATTERNS :: "(string \<times> rx \<times> rx option) list" where
  "WARN_PATTERNS =
     [(''internal Linear ticket id'',
         rseq [RAssert WordB, rlit_ci ''ath'', ropt (rchar CHR ''-''), rtimes 4 rdigit], None),
      (''private Kairos-repo pointer'', rlit (''athanor-'' @ ''kairos''),
         Some (rlit (''athanor-'' @ ''kairos-runall'')))]"

definition DENYLIST_REL :: string where
  "DENYLIST_REL = ''athanor/fleet_handle_denylist.json''"

definition MIN_HANDLES :: nat where
  "MIN_HANDLES = 8"

definition HANDLE_FINDING_TIER :: string where
  "HANDLE_FINDING_TIER = ''warn''"

definition HANDLE_SCAN_EXEMPT_PATHS :: "(string \<times> string) list" where
  "HANDLE_SCAN_EXEMPT_PATHS =
     [(DENYLIST_REL, ''the denylist DATA file; holds every handle verbatim by design''),
      (''athanor/export_safety_gate.py'',
         ''this gate; a detector necessarily contains the thing it detects, and '' @
         ''scrubbing it would disable the protection''),
      (''athanor/gen_fleet_handle_denylist.py'',
         ''the denylist GENERATOR; same reason -- it names the roster it derives from'')]"

section \<open>The denylist loader\<close>

definition gate_fail :: "string \<Rightarrow> 'a res" where
  "gate_fail why = Inl (GateError why)"

definition load_agent_handles :: "string + bytes \<Rightarrow> string list res" where
  "load_agent_handles committed =
     (case committed of
        Inl err \<Rightarrow> gate_fail ''unreadable''
      | Inr raw \<Rightarrow>
          if raw = [] then gate_fail ''missing''
          else (case Option.bind (decode_strict raw) json_loads of
            Some (JObj payload) \<Rightarrow>
              (case map_of payload ''handles'' of
                 None \<Rightarrow> gate_fail ''malformed''
               | Some (JArr handles) \<Rightarrow>
                   (case map_of payload ''stamp'' of
                      None \<Rightarrow> gate_fail ''malformed''
                    | Some stamp \<Rightarrow>
                        if \<not> list_all nonempty_string handles then gate_fail ''non-string or empty handle''
                        else let hs = map py_str handles in
                          if list_ex (\<lambda>h. h \<noteq> strip h) hs then gate_fail ''surrounding whitespace''
                          else if py_str stamp \<noteq> sha256 (join [NL] (sort hs)) then gate_fail ''stamp mismatch''
                          else let canonical = sorted_set (map lower hs) in
                            if length canonical < MIN_HANDLES then gate_fail ''below the truncation floor''
                            else Inr canonical)
               | Some _ \<Rightarrow> gate_fail ''must be a LIST'')
          | _ \<Rightarrow> gate_fail ''malformed''))"

section \<open>The scan\<close>

record gate_env =
  ls_tree :: "string + bytes"             \<comment> \<open>\<^verbatim>\<open>git ls-tree -r --name-only -z\<close>\<close>
  show_file :: "string \<Rightarrow> string + bytes"   \<comment> \<open>\<^verbatim>\<open>git show ref:path\<close>\<close>
  verifier_run :: "(nat \<times> string \<times> string) option"  \<comment> \<open>exit code, output, error output; \<open>None\<close>: no such file\<close>

definition committed_paths :: "gate_env \<Rightarrow> string list res" where
  "committed_paths env =
     (case ls_tree env of Inl err \<Rightarrow> gate_fail err | Inr out \<Rightarrow> Inr (filter (\<lambda>p. p \<noteq> []) (split_on NUL out)))"

definition handle_rx :: "string list \<Rightarrow> rx" where
  "handle_rx handles =
     rseq [RAssert (NotBehind (cls_ci [az])), ralts (map rlit_ci handles), RAssert (NotAhead (cls_ci [az]))]"

definition HANDLE_LABEL :: string where
  "HANDLE_LABEL = ''internal fleet-agent handle''"

definition shown_line :: "bytes \<Rightarrow> string" where
  "shown_line line = take_points 200 (strip (decode_replace line))"

definition finding_row :: "string \<Rightarrow> string \<Rightarrow> nat \<Rightarrow> string \<Rightarrow> string" where
  "finding_row label path lineno shown = ''['' @ label @ ''] '' @ path @ '':'' @ dec lineno @ '': '' @ shown"

definition in_our_scope :: "string \<Rightarrow> bool" where
  "in_our_scope path_key = list_ex (\<lambda>p. startswith path_key (lower p)) OUR_ADDED_PREFIXES"

definition is_exempt :: "string \<Rightarrow> bool" where
  "is_exempt path_key = list_ex (\<lambda>(n, _). lower n = path_key) HANDLE_SCAN_EXEMPT_PATHS"

definition exempt_reason :: "string \<Rightarrow> string" where
  "exempt_reason path_key =
     (case find (\<lambda>(n, _). lower n = path_key) HANDLE_SCAN_EXEMPT_PATHS of
        Some (_, reason) \<Rightarrow> reason | None \<Rightarrow> ''unstated'')"

record scan_state =
  sc_block :: "string list"
  sc_warn :: "string list"
  sc_skipped :: "string list"

definition block_rows :: "string \<Rightarrow> nat \<times> bytes \<Rightarrow> string list" where
  "block_rows path nl =
     (case nl of (lineno, line) \<Rightarrow>
        map (\<lambda>(label, _). finding_row label path lineno (shown_line line))
          (filter (\<lambda>(_, rx). rx_search rx line)
             (if in_our_scope (lower path) then BLOCK_ALWAYS @ BLOCK_SCOPED else BLOCK_ALWAYS)))"

text \<open>One row per distinct handle on the line.\<close>

definition handle_rows :: "string list \<Rightarrow> string \<Rightarrow> nat \<times> bytes \<Rightarrow> string list" where
  "handle_rows handles path nl =
     (case nl of (lineno, line) \<Rightarrow>
        if in_our_scope (lower path) \<and> \<not> is_exempt (lower path)
        then map (\<lambda>_. finding_row HANDLE_LABEL path lineno (shown_line line))
               (sorted_set (map lower (findall (handle_rx handles) line)))
        else [])"

definition warn_rows :: "string \<Rightarrow> nat \<times> bytes \<Rightarrow> string list" where
  "warn_rows path nl =
     (case nl of (lineno, line) \<Rightarrow>
        map (\<lambda>(label, _). finding_row label path lineno (shown_line line))
          (filter (\<lambda>(_, rx, ex). rx_search rx line \<and> \<not> (case ex of None \<Rightarrow> False | Some e \<Rightarrow> rx_search e line))
             WARN_PATTERNS))"

text \<open>The body of the loop over the lines of one file.\<close>

definition scan_line :: "string \<Rightarrow> string list \<Rightarrow> string \<Rightarrow> scan_state \<Rightarrow> nat \<times> bytes \<Rightarrow> scan_state" where
  "scan_line tier handles path st nl =
     (let st1 = st\<lparr>sc_block := sc_block st @ block_rows path nl\<rparr>;
          note = path @ '' (exempt: '' @ exempt_reason (lower path) @ '')'';
          st2 = (if in_our_scope (lower path) \<and> is_exempt (lower path)
                 then (if note \<in> set (sc_skipped st1) then st1
                       else st1\<lparr>sc_skipped := sc_skipped st1 @ [note]\<rparr>)
                 else if tier = ''block''
                 then st1\<lparr>sc_block := sc_block st1 @ handle_rows handles path nl\<rparr>
                 else st1\<lparr>sc_warn := sc_warn st1 @ handle_rows handles path nl\<rparr>)
      in st2\<lparr>sc_warn := sc_warn st2 @ warn_rows path nl\<rparr>)"

definition file_lines :: "bytes \<Rightarrow> (nat \<times> bytes) list" where
  "file_lines content = enumerate_from 1 (split_on NL content)"

definition scan_file :: "string \<Rightarrow> string list \<Rightarrow> string \<Rightarrow> bytes \<Rightarrow> scan_state \<Rightarrow> scan_state" where
  "scan_file tier handles path content st =
     (if NUL \<in> set content
      then st\<lparr>sc_skipped := sc_skipped st @ [path @ '' (binary: contains a NUL byte)'']\<rparr>
      else foldl (scan_line tier handles path) st (file_lines content))"

fun scan_files :: "gate_env \<Rightarrow> string \<Rightarrow> string list \<Rightarrow> string list \<Rightarrow> scan_state \<Rightarrow> scan_state res" where
  "scan_files env tier handles [] st = Inr st"
| "scan_files env tier handles (path # paths) st =
     (case show_file env path of
        Inl err \<Rightarrow> gate_fail err
      | Inr content \<Rightarrow> scan_files env tier handles paths (scan_file tier handles path content st))"

definition scan_committed :: "gate_env \<Rightarrow> string \<Rightarrow> scan_state res" where
  "scan_committed env tier =
     (if tier \<noteq> ''warn'' \<and> tier \<noteq> ''block'' then gate_fail ''HANDLE_FINDING_TIER''
      else bind_res (load_agent_handles (show_file env DENYLIST_REL)) (\<lambda>handles.
           bind_res (committed_paths env) (\<lambda>paths.
             scan_files env tier handles paths \<lparr>sc_block = [], sc_warn = [], sc_skipped = []\<rparr>)))"

definition run_receipt_verifier :: "gate_env \<Rightarrow> string list" where
  "run_receipt_verifier env =
     (case verifier_run env of
        None \<Rightarrow> [''receipt verifier missing at athanor/verify_public_receipts.py (fail-closed)'']
      | Some (rc, out, err) \<Rightarrow>
          if rc \<noteq> 0
          then [''receipt verifier failed (rc='' @ dec rc @ ''): '' @ strip (if err \<noteq> [] then err else out)]
          else [])"

definition run_gate :: "gate_env \<Rightarrow> string \<Rightarrow> scan_state res" where
  "run_gate env tier =
     bind_res (scan_committed env tier) (\<lambda>st.
       Inr (st\<lparr>sc_block := sc_block st @ run_receipt_verifier env\<rparr>))"

text \<open>\<open>--scan-text\<close>: the always-block patterns over a text that is not in the tree.\<close>

definition scan_text :: "str \<Rightarrow> string \<Rightarrow> string list" where
  "scan_text body source =
     concat (map (\<lambda>(lineno, line).
        map (\<lambda>(label, _). finding_row label source lineno (take_points 200 (strip line)))
          (filter (\<lambda>(_, rx). rx_search rx line) BLOCK_ALWAYS))
      (enumerate_from 1 (splitlines body)))"

section \<open>The command\<close>

text \<open>\<open>xs[:n]\<close> with Python's reading of a negative \<open>n\<close>.\<close>

definition py_prefix :: "int \<Rightarrow> 'a list \<Rightarrow> 'a list" where
  "py_prefix n xs = (if 0 \<le> n then take (nat n) xs else take (length xs - nat (- n)) xs)"

definition staged_rows :: "string \<Rightarrow> string list \<Rightarrow> string list" where
  "staged_rows tier warn =
     (if tier = ''warn'' then filter (\<lambda>w. startswith w (''['' @ HANDLE_LABEL @ '']'')) warn else [])"

definition generic_rows :: "string \<Rightarrow> string list \<Rightarrow> string list" where
  "generic_rows tier warn = filter (\<lambda>w. w \<notin> set (staged_rows tier warn)) warn"

definition shown_rows :: "int \<Rightarrow> string list \<Rightarrow> string list" where
  "shown_rows warn_limit generic = (if warn_limit = 0 then generic else py_prefix warn_limit generic)"

definition clean_line :: "string \<Rightarrow> string" where
  "clean_line ref = [NL] @ ''OK: export-safety gate clean at '' @ ref @ '' (0 BLOCK; 0 WARN).''"

definition gate_report :: "scan_state \<Rightarrow> string \<Rightarrow> string \<Rightarrow> int \<Rightarrow> nat \<times> line_out list" where
  "gate_report st tier ref warn_limit =
     (let block = sc_block st; warn = sc_warn st; skipped = sc_skipped st;
          staged = staged_rows tier warn; generic = generic_rows tier warn;
          shown = shown_rows warn_limit generic; suppressed = length generic - length shown;
          out1 = (if skipped = [] then []
                  else [Out (''INFO: '' @ dec (length skipped) @ '' file(s) not scanned: '' @ join '', '' skipped)]);
          out2 = (if generic = [] then []
                  else Out (''WARN: '' @ dec (length generic) @ '' conscious-choice metadata finding(s) at '' @ ref @ '':'')
                       # map (\<lambda>l. Out (''  warn: '' @ l)) shown
                       @ (if suppressed = 0 then []
                          else [Out (''  ... '' @ dec suppressed @ '' more (raise --warn-limit to see all)'')]));
          out3 = (if staged = [] then []
                  else Out ([NL] @ ''STAGED (ATH-3397): '' @ dec (length staged) @ '' fleet-agent handle instance(s) at ''
                            @ ref @ '' '' @ [CHR 0xE2, CHR 0x80, CHR 0x94] @ '' REPORTED, not blocking. This tier is promoted to BLOCK once the scrub lands:'')
                       # map (\<lambda>l. Out (''  staged-handle: '' @ l)) staged)
      in if block \<noteq> []
         then (1, out1 @ out2 @ out3
                  @ Err ([NL] @ ''FAIL: '' @ dec (length block) @ '' BLOCK-tier export-safety leak(s) at '' @ ref @ '':'')
                  # map (\<lambda>l. Err (''  block: '' @ l)) block
                  @ [Err ([NL] @ ''These are hard-safety leaks on a PUBLIC fork. Remove them from the committed tree (do not commit generated *.replay.log; they belong in an ignored output dir).'')])
         else if warn \<noteq> []
         then (0, out1 @ out2 @ out3
                  @ [Out ([NL] @ ''OK (0 BLOCK): export-safety gate raised '' @ dec (length warn) @ '' WARN finding(s) at '' @ ref
                     @ (if staged = [] then [] else ''; '' @ dec (length staged) @ '' of them staged fleet-agent handles'')
                     @ ''. NOT clean -- '' @ (if suppressed = 0 then ''all named above'' else dec suppressed @ '' not shown (raise --warn-limit)'')
                     @ ''. Exit 0 reflects the TIER, not the tree.'')])
         else (0, out1 @ out2 @ out3 @ [Out (clean_line ref)]))"

definition gate_main :: "gate_env \<Rightarrow> string \<Rightarrow> string \<Rightarrow> int \<Rightarrow> nat \<times> line_out list" where
  "gate_main env tier ref warn_limit =
     (case run_gate env tier of
        Inl (GateError why) \<Rightarrow> (2, [Err (''GATE-ERROR: '' @ why)])
      | Inl _ \<Rightarrow> (1, [])
      | Inr st \<Rightarrow> gate_report st tier ref warn_limit)"

text \<open>\<open>None\<close> is a standard input that cannot be read.\<close>

definition scan_text_main :: "str option \<Rightarrow> nat \<times> line_out list" where
  "scan_text_main stdin =
     (case stdin of
        None \<Rightarrow> (2, [Err ''GATE-ERROR: could not read text from stdin''])
      | Some body \<Rightarrow>
          let findings = scan_text body ''pr-text'' in
          if findings \<noteq> []
          then (1, Err ([NL] @ ''FAIL: '' @ dec (length findings) @ '' BLOCK-tier leak(s) in the PR/issue/review text:'')
                   # map (\<lambda>f. Err (''  block: '' @ f)) findings
                   @ [Err ([NL] @ ''Internal markers/secrets are public on a public fork's PR page too -- scrub the PR body / comments.'')])
          else (0, [Out ''OK: PR/issue/review text clean (0 BLOCK-tier leaks).'']))"

section \<open>The scan as one comprehension\<close>

text \<open>What the loops leave in the three lists.\<close>

lemma scan_line_lists:
  "sc_block (scan_line tier hs path st nl) =
     sc_block st @ block_rows path nl @ (if tier = ''block'' then handle_rows hs path nl else [])"
  "sc_warn (scan_line tier hs path st nl) =
     sc_warn st @ (if tier = ''block'' then [] else handle_rows hs path nl) @ warn_rows path nl"
  by (cases nl; simp add: scan_line_def Let_def handle_rows_def)+

definition line_block :: "string \<Rightarrow> string list \<Rightarrow> string \<times> bytes \<Rightarrow> string list" where
  "line_block tier hs = (\<lambda>(path, content). if NUL \<in> set content then []
     else concat (map (\<lambda>nl. block_rows path nl @ (if tier = ''block'' then handle_rows hs path nl else []))
       (file_lines content)))"

definition line_warn :: "string \<Rightarrow> string list \<Rightarrow> string \<times> bytes \<Rightarrow> string list" where
  "line_warn tier hs = (\<lambda>(path, content). if NUL \<in> set content then []
     else concat (map (\<lambda>nl. (if tier = ''block'' then [] else handle_rows hs path nl) @ warn_rows path nl)
       (file_lines content)))"

lemma scan_lines_lists:
  "sc_block (foldl (scan_line tier hs path) st nls) = sc_block st @
     concat (map (\<lambda>nl. block_rows path nl @ (if tier = ''block'' then handle_rows hs path nl else [])) nls)"
  "sc_warn (foldl (scan_line tier hs path) st nls) = sc_warn st @
     concat (map (\<lambda>nl. (if tier = ''block'' then [] else handle_rows hs path nl) @ warn_rows path nl) nls)"
  by (induction nls arbitrary: st) (simp_all add: scan_line_lists)

lemma scan_file_lists:
  "sc_block (scan_file tier hs path content st) = sc_block st @ line_block tier hs (path, content)"
  "sc_warn (scan_file tier hs path content st) = sc_warn st @ line_warn tier hs (path, content)"
  by (simp_all add: scan_file_def line_block_def line_warn_def scan_lines_lists)

text \<open>The committed tree: every path with its bytes, or \<open>None\<close> when \<^verbatim>\<open>git\<close> fails on one.\<close>

fun fetch :: "gate_env \<Rightarrow> string list \<Rightarrow> (string \<times> bytes) list option" where
  "fetch env [] = Some []"
| "fetch env (p # ps) =
     (case show_file env p of Inl _ \<Rightarrow> None | Inr c \<Rightarrow> map_option ((#) (p, c)) (fetch env ps))"

lemma scan_files_fetch:
  "(case scan_files env tier hs paths st of Inl e \<Rightarrow> fetch env paths = None \<and> (\<exists>why. e = GateError why)
    | Inr st' \<Rightarrow> \<exists>files. fetch env paths = Some files \<and>
        sc_block st' = sc_block st @ concat (map (line_block tier hs) files) \<and>
        sc_warn st' = sc_warn st @ concat (map (line_warn tier hs) files))"
proof (induction paths arbitrary: st)
  case (Cons p ps)
  show ?case
  proof (cases "show_file env p")
    case (Inr c)
    with Cons.IH[of "scan_file tier hs p c st"] show ?thesis
      by (auto simp: scan_file_lists split: sum.splits)
  qed (simp add: gate_fail_def)
qed simp

definition committed_files :: "gate_env \<Rightarrow> (string \<times> bytes) list option" where
  "committed_files env =
     (case committed_paths env of Inl _ \<Rightarrow> None | Inr paths \<Rightarrow> fetch env paths)"

lemma load_agent_handles_error:
  "load_agent_handles c = Inl e \<Longrightarrow> \<exists>why. e = GateError why"
  by (auto simp: load_agent_handles_def gate_fail_def Let_def split: sum.splits option.splits json.splits if_splits)

text \<open>A run either cannot start, and then says so with a GateError, or reports these rows.\<close>

lemma run_gate_cases:
  assumes "tier \<in> {''warn'', ''block''}"
  obtains (fails) why where "run_gate env tier = Inl (GateError why)"
      "\<nexists>hs files. load_agent_handles (show_file env DENYLIST_REL) = Inr hs \<and> committed_files env = Some files"
  | (runs) hs files st where "run_gate env tier = Inr st"
      "load_agent_handles (show_file env DENYLIST_REL) = Inr hs" "committed_files env = Some files"
      "sc_block st = concat (map (line_block tier hs) files) @ run_receipt_verifier env"
      "sc_warn st = concat (map (line_warn tier hs) files)"
proof (cases "load_agent_handles (show_file env DENYLIST_REL)")
  case (Inl e)
  from load_agent_handles_error[OF this] Inl that(1) assms show ?thesis
    by (auto simp: run_gate_def scan_committed_def)
next
  case hs: (Inr hs)
  show ?thesis
  proof (cases "committed_paths env")
    case (Inl e)
    then obtain why where "e = GateError why"
      by (auto simp: committed_paths_def gate_fail_def split: sum.splits)
    with Inl hs that(1) assms show ?thesis
      by (auto simp: run_gate_def scan_committed_def committed_files_def)
  next
    case (Inr paths)
    let ?s0 = "\<lparr>sc_block = [], sc_warn = [], sc_skipped = []\<rparr>"
    show ?thesis
    proof (cases "scan_files env tier hs paths ?s0")
      case (Inl e)
      with scan_files_fetch[where env = env and tier = tier and hs = hs and paths = paths and st = ?s0] hs Inr that(1) assms show ?thesis
        by (auto simp: run_gate_def scan_committed_def committed_files_def)
    next
      case sf: (Inr st)
      with scan_files_fetch[where env = env and tier = tier and hs = hs and paths = paths and st = ?s0]
      obtain files where files: "fetch env paths = Some files"
        "sc_block st = concat (map (line_block tier hs) files)"
        "sc_warn st = concat (map (line_warn tier hs) files)" by auto
      show ?thesis
      proof (rule that(2)[of "st\<lparr>sc_block := sc_block st @ run_receipt_verifier env\<rparr>" hs files])
        show "run_gate env tier = Inr (st\<lparr>sc_block := sc_block st @ run_receipt_verifier env\<rparr>)"
          using assms hs Inr sf by (auto simp: run_gate_def scan_committed_def)
      qed (use hs Inr files in \<open>simp_all add: committed_files_def\<close>)
    qed
  qed
qed

section \<open>What a handle finding means\<close>

definition is_letter :: "char \<Rightarrow> bool" where
  "is_letter c \<longleftrightarrow> is_upper c \<or> is_lower c"

lemma in_class_ci_az: "in_class (cls_ci [az]) c \<longleftrightarrow> is_letter c"
proof -
  have up: "is_upper c \<Longrightarrow> is_lower (to_lower c)"
    by (auto simp: to_lower_def char_class_defs)
  have "is_lower (to_upper c) \<Longrightarrow> is_letter c"
    by (auto simp: to_upper_def char_class_defs is_letter_def split: if_splits)
  moreover have "is_lower (to_lower c) \<Longrightarrow> is_letter c"
    by (auto simp: to_lower_def is_letter_def split: if_splits)
  ultimately show ?thesis using up
    by (auto simp: in_class_def cls_ci_def in_ranges_def is_letter_def is_lower_def)
qed

text \<open>A handle occurs on a line: in some case, not preceded and not followed by a letter.\<close>

definition handle_occurs :: "string list \<Rightarrow> bytes \<Rightarrow> bool" where
  "handle_occurs hs line \<longleftrightarrow> (\<exists>a m b. line = a @ m @ b \<and> lower m \<in> set hs \<and>
     (a = [] \<or> \<not> is_letter (last a)) \<and> (b = [] \<or> \<not> is_letter (hd b)))"

lemma handle_rx_iff:
  assumes "\<forall>h\<in>set hs. lower h = h"
  shows "rx_search (handle_rx hs) line \<longleftrightarrow> handle_occurs hs line"
proof -
  have alt: "rx_matches (ralts (map rlit_ci hs)) pre m post \<longleftrightarrow> lower m \<in> set hs" for pre m post
    unfolding ralts_matches using assms by (auto simp: rlit_ci_matches)
  have behind: "opt_in (cls_ci [az]) (rev a) \<longleftrightarrow> \<not> (a = [] \<or> \<not> is_letter (last a))" for a
    by (cases a rule: rev_cases) (auto simp: opt_in_def in_class_ci_az)
  have ahead: "opt_in (cls_ci [az]) b \<longleftrightarrow> \<not> (b = [] \<or> \<not> is_letter (hd b))" for b
    by (cases b) (auto simp: opt_in_def in_class_ci_az)
  have "rx_matches (handle_rx hs) (rev a) m b \<longleftrightarrow>
      lower m \<in> set hs \<and> (a = [] \<or> \<not> is_letter (last a)) \<and> (b = [] \<or> \<not> is_letter (hd b))" for a m b
    unfolding handle_rx_def rseq.simps
    by (auto simp: rx_simps alt behind ahead hd_rev)
  then show ?thesis unfolding rx_search_iff handle_occurs_def by blast
qed

lemma handle_rows_Nil:
  assumes "\<forall>h\<in>set hs. lower h = h"
  shows "handle_rows hs path (n, line) = [] \<longleftrightarrow>
    \<not> (in_our_scope (lower path) \<and> \<not> is_exempt (lower path) \<and> handle_occurs hs line)"
proof -
  have "sorted_set (map lower (findall (handle_rx hs) line)) = [] \<longleftrightarrow> findall (handle_rx hs) line = []"
    by (metis map_is_Nil_conv set_empty sorted_set_set)
  also have "\<dots> \<longleftrightarrow> \<not> rx_search (handle_rx hs) line"
    by (simp add: findall_def finditer_Nil_iff)
  finally show ?thesis
    unfolding handle_rows_def handle_rx_iff[OF assms] by simp
qed

section \<open>The denylist\<close>

lemma load_agent_handles_Inr:
  assumes "load_agent_handles committed = Inr hs"
  obtains raw payload stamp declared where
    "committed = Inr raw" "Option.bind (decode_strict raw) json_loads = Some (JObj payload)"
    "map_of payload ''handles'' = Some (JArr (map JStr declared))" "map_of payload ''stamp'' = Some stamp"
    "py_str stamp = stamp_for declared" "hs = sorted_set (map lower declared)" "MIN_HANDLES \<le> length hs"
    "\<forall>h\<in>set declared. h \<noteq> [] \<and> strip h = h"
proof -
  from assms obtain raw payload vs stamp where
    h: "committed = Inr raw" "Option.bind (decode_strict raw) json_loads = Some (JObj payload)"
      "map_of payload ''handles'' = Some (JArr vs)" "map_of payload ''stamp'' = Some stamp"
      "list_all nonempty_string vs" "\<not> list_ex (\<lambda>h. h \<noteq> strip h) (map py_str vs)"
      "py_str stamp = sha256 (join [NL] (sort (map py_str vs)))"
      "hs = sorted_set (map lower (map py_str vs))" "MIN_HANDLES \<le> length hs"
    by (auto simp: load_agent_handles_def gate_fail_def Let_def split: sum.splits option.splits json.splits if_splits)
  have vs: "vs = map JStr (map py_str vs)"
    using h(5) by (induction vs) (auto simp: nonempty_string_iff)
  show ?thesis
  proof (rule that[of raw payload "map py_str vs" stamp])
    show "map_of payload ''handles'' = Some (JArr (map JStr (map py_str vs)))" using h(3) vs by simp
    show "\<forall>h\<in>set (map py_str vs). h \<noteq> [] \<and> strip h = h"
      using h(5,6) by (auto simp: list_all_iff list_ex_iff nonempty_string_iff strip_def lstrip_def rstrip_def)
  qed (use h in \<open>simp_all add: stamp_for_def\<close>)
qed

lemma loaded_lower: "load_agent_handles c = Inr hs \<Longrightarrow> \<forall>h\<in>set hs. lower h = h"
  by (erule load_agent_handles_Inr) auto

section \<open>Specification: what a committed tree must not carry\<close>

definition tree_lines :: "(string \<times> bytes) list \<Rightarrow> (string \<times> bytes) list" where
  "tree_lines files =
     concat (map (\<lambda>(p, c). if NUL \<in> set c then [] else map (Pair p) (split_on NL c)) files)"

text \<open>A file below an authored prefix, whatever the case of its path, and the files the handle scan
  leaves out.\<close>

definition authored :: "string \<Rightarrow> bool" where
  "authored path \<longleftrightarrow> (\<exists>p\<in>set OUR_ADDED_PREFIXES. \<exists>rest. lower path = lower p @ rest)"

definition scan_exempt :: "string \<Rightarrow> bool" where
  "scan_exempt path \<longleftrightarrow> lower path \<in> lower ` fst ` set HANDLE_SCAN_EXEMPT_PATHS"

lemma in_our_scope_iff: "in_our_scope (lower path) \<longleftrightarrow> authored path"
  by (auto simp: in_our_scope_def authored_def list_ex_iff startswith_def prefix_def)

lemma is_exempt_iff: "is_exempt (lower path) \<longleftrightarrow> scan_exempt path"
  unfolding is_exempt_def scan_exempt_def list_ex_iff image_image image_iff case_prod_unfold by metis

definition forbidden :: "string \<Rightarrow> bytes \<Rightarrow> bool" where
  "forbidden path line \<longleftrightarrow>
     list_ex (\<lambda>(_, rx). rx_search rx line) BLOCK_ALWAYS \<or>
     authored path \<and> list_ex (\<lambda>(_, rx). rx_search rx line) BLOCK_SCOPED"

definition metadata :: "bytes \<Rightarrow> bool" where
  "metadata line \<longleftrightarrow>
     list_ex (\<lambda>(_, rx, ex). rx_search rx line \<and> (case ex of None \<Rightarrow> True | Some e \<Rightarrow> \<not> rx_search e line)) WARN_PATTERNS"

definition names_handle :: "string list \<Rightarrow> string \<Rightarrow> bytes \<Rightarrow> bool" where
  "names_handle hs path line \<longleftrightarrow> authored path \<and> \<not> scan_exempt path \<and> handle_occurs hs line"

lemma block_rows_Nil: "block_rows path (n, line) = [] \<longleftrightarrow> \<not> forbidden path line"
  by (auto simp: block_rows_def forbidden_def in_our_scope_iff filter_empty_conv list_ex_iff)

lemma warn_rows_Nil: "warn_rows path (n, line) = [] \<longleftrightarrow> \<not> metadata line"
  by (auto simp: warn_rows_def metadata_def filter_empty_conv list_ex_iff split: option.splits)

lemma file_lines_all:
  "(\<forall>nl\<in>set (file_lines c). P (snd nl)) \<longleftrightarrow> (\<forall>l\<in>set (split_on NL c). P l)"
proof -
  have "set (split_on NL c) = snd ` set (file_lines c)"
    by (simp only: file_lines_def set_map[symmetric] map_snd_enumerate_from)
  then show ?thesis by simp
qed

lemma tree_lines_all:
  "list_all (\<lambda>(p, l). P p l) (tree_lines files) \<longleftrightarrow>
     (\<forall>(p, c)\<in>set files. NUL \<in> set c \<or> (\<forall>nl\<in>set (file_lines c). P p (snd nl)))"
proof (induction files)
  case (Cons f fs)
  obtain p c where f: "f = (p, c)" by force
  have "tree_lines (f # fs) = (if NUL \<in> set c then [] else map (Pair p) (split_on NL c)) @ tree_lines fs"
    by (simp add: tree_lines_def f)
  then show ?case using Cons by (simp add: f file_lines_all list_all_iff[of _ "map _ _"])
qed (simp add: tree_lines_def)

lemma blocks_Nil:
  assumes "\<forall>h\<in>set hs. lower h = h"
  shows "concat (map (line_block tier hs) files) = [] \<longleftrightarrow>
    list_all (\<lambda>(p, l). \<not> forbidden p l \<and> (if tier = ''block'' then \<not> names_handle hs p l else True)) (tree_lines files)"
proof -
  have row: "block_rows p nl @ (if tier = ''block'' then handle_rows hs p nl else []) = [] \<longleftrightarrow>
      \<not> forbidden p (snd nl) \<and> (if tier = ''block'' then \<not> names_handle hs p (snd nl) else True)" for p nl
    by (cases nl) (simp add: block_rows_Nil handle_rows_Nil[OF assms] names_handle_def in_our_scope_iff is_exempt_iff)
  have per_file: "line_block tier hs (p, c) = [] \<longleftrightarrow> NUL \<in> set c \<or> (\<forall>nl\<in>set (file_lines c).
      \<not> forbidden p (snd nl) \<and> (if tier = ''block'' then \<not> names_handle hs p (snd nl) else True))" for p c
    unfolding line_block_def prod.case if_split[of "\<lambda>x. x = []"] concat_map_Nil_iff row by blast
  show ?thesis
    unfolding tree_lines_all concat_map_Nil_iff
    by (intro ball_cong refl) (auto simp only: per_file split: prod.splits)
qed

lemma warns_Nil:
  assumes "\<forall>h\<in>set hs. lower h = h"
  shows "concat (map (line_warn tier hs) files) = [] \<longleftrightarrow>
    list_all (\<lambda>(p, l). \<not> metadata l \<and> (if tier = ''block'' then True else \<not> names_handle hs p l)) (tree_lines files)"
proof -
  have row: "(if tier = ''block'' then [] else handle_rows hs p nl) @ warn_rows p nl = [] \<longleftrightarrow>
      \<not> metadata (snd nl) \<and> (if tier = ''block'' then True else \<not> names_handle hs p (snd nl))" for p nl
    by (cases nl) (auto simp: warn_rows_Nil handle_rows_Nil[OF assms] names_handle_def in_our_scope_iff is_exempt_iff)
  have per_file: "line_warn tier hs (p, c) = [] \<longleftrightarrow> NUL \<in> set c \<or> (\<forall>nl\<in>set (file_lines c).
      \<not> metadata (snd nl) \<and> (if tier = ''block'' then True else \<not> names_handle hs p (snd nl)))" for p c
    unfolding line_warn_def prod.case if_split[of "\<lambda>x. x = []"] concat_map_Nil_iff row by blast
  show ?thesis
    unfolding tree_lines_all concat_map_Nil_iff
    by (intro ball_cong refl) (auto simp only: per_file split: prod.splits)
qed

lemma verifier_Nil: "run_receipt_verifier env = [] \<longleftrightarrow> (\<exists>out err. verifier_run env = Some (0, out, err))"
  by (auto simp: run_receipt_verifier_def split: option.splits)

lemma report_code: "fst (gate_report st tier ref cap) = (if sc_block st = [] then 0 else 1)"
  by (simp add: gate_report_def Let_def)

lemma report_clean:
  "Out (clean_line ref) \<in> set (snd (gate_report st tier ref cap)) \<longleftrightarrow> sc_block st = [] \<and> sc_warn st = []"
  by (auto simp: gate_report_def Let_def clean_line_def generic_rows_def staged_rows_def split: if_splits)

lemma gate_exit_zero_tier:
  assumes "tier \<in> {''warn'', ''block''}"
  shows "fst (gate_main env tier ref cap) = 0 \<longleftrightarrow>
    (\<exists>hs files. load_agent_handles (show_file env DENYLIST_REL) = Inr hs \<and> committed_files env = Some files \<and>
       list_all (\<lambda>(p, l). \<not> forbidden p l \<and> (if tier = ''block'' then \<not> names_handle hs p l else True)) (tree_lines files) \<and>
       (\<exists>out err. verifier_run env = Some (0, out, err)))"
  using assms
proof (cases rule: run_gate_cases[where env = env])
  case fails
  then show ?thesis by (auto simp: gate_main_def)
next
  case (runs hs files st)
  then show ?thesis
    by (simp add: gate_main_def report_code blocks_Nil[OF loaded_lower[OF runs(2)]] verifier_Nil
        del: concat_eq_Nil_conv)
qed

section \<open>Properties\<close>

text \<open>C2: the gate's exit code is 0 exactly when the denylist loads, every committed file can be
  read, the receipt verifier exits 0, and no line of a file without NUL bytes matches a pattern
  that blocks everywhere or, in a file under the authored prefixes (in any case), a host path.\<close>

theorem gate_exit_zero_exact:
  "fst (gate_main env HANDLE_FINDING_TIER ref cap) = 0 \<longleftrightarrow>
    (\<exists>hs files. load_agent_handles (show_file env DENYLIST_REL) = Inr hs \<and> committed_files env = Some files \<and>
       list_all (\<lambda>(p, l). \<not> forbidden p l) (tree_lines files) \<and>
       (\<exists>out err. verifier_run env = Some (0, out, err)))"
  using gate_exit_zero_tier[of HANDLE_FINDING_TIER env ref cap] by (simp add: HANDLE_FINDING_TIER_def)

text \<open>C3: the word clean is printed exactly when there is nothing to report: no blocking line, no
  metadata line, and no line of an authored, not exempted file that names a handle in any case
  between non-letters.\<close>

theorem gate_clean_exact:
  "Out (clean_line ref) \<in> set (snd (gate_main env HANDLE_FINDING_TIER ref cap)) \<longleftrightarrow>
    (\<exists>hs files. load_agent_handles (show_file env DENYLIST_REL) = Inr hs \<and> committed_files env = Some files \<and>
       list_all (\<lambda>(p, l). \<not> forbidden p l \<and> \<not> metadata l \<and> \<not> names_handle hs p l) (tree_lines files) \<and>
       (\<exists>out err. verifier_run env = Some (0, out, err)))"
proof -
  have tier: "HANDLE_FINDING_TIER \<in> {''warn'', ''block''}" by (simp add: HANDLE_FINDING_TIER_def)
  then show ?thesis
  proof (cases rule: run_gate_cases[where env = env])
    case fails
    then show ?thesis by (auto simp: gate_main_def)
  next
    case (runs hs files st)
    have "Out (clean_line ref) \<in> set (snd (gate_main env HANDLE_FINDING_TIER ref cap)) \<longleftrightarrow>
        sc_block st = [] \<and> sc_warn st = []"
      using runs(1) by (simp add: gate_main_def report_clean)
    also have "\<dots> \<longleftrightarrow> list_all (\<lambda>(p, l). \<not> forbidden p l \<and> \<not> metadata l \<and> \<not> names_handle hs p l) (tree_lines files)
        \<and> (\<exists>out err. verifier_run env = Some (0, out, err))"
      using runs(4,5) blocks_Nil[OF loaded_lower[OF runs(2)]] warns_Nil[OF loaded_lower[OF runs(2)]] verifier_Nil
      by (auto simp: HANDLE_FINDING_TIER_def list_all_iff simp del: concat_eq_Nil_conv)
    finally show ?thesis using runs(2,3) by auto
  qed
qed

text \<open>In the enforcing tier a line that names a handle blocks too, so exit code 0 means there is
  none.\<close>

theorem gate_block_tier_exact:
  "fst (gate_main env ''block'' ref cap) = 0 \<longleftrightarrow>
    (\<exists>hs files. load_agent_handles (show_file env DENYLIST_REL) = Inr hs \<and> committed_files env = Some files \<and>
       list_all (\<lambda>(p, l). \<not> forbidden p l \<and> \<not> names_handle hs p l) (tree_lines files) \<and>
       (\<exists>out err. verifier_run env = Some (0, out, err)))"
  using gate_exit_zero_tier[of "''block''" env ref cap] by simp

text \<open>C11: the loader is fail-closed. A list it returns is sorted, has at least eight distinct lowercase
  entries, and comes from a committed document whose stamp is the digest of its declared handles.\<close>

theorem denylist_loader_fail_closed:
  assumes "load_agent_handles committed = Inr hs"
  shows "sorted hs \<and> distinct hs \<and> 8 \<le> length hs \<and> map lower hs = hs \<and>
    (\<exists>raw payload declared stamp. committed = Inr raw \<and>
       Option.bind (decode_strict raw) json_loads = Some (JObj payload) \<and>
       get payload ''handles'' = JArr (map JStr declared) \<and> get payload ''stamp'' = stamp \<and>
       py_str stamp = stamp_for declared \<and> set hs = lower ` set declared)"
  using assms
proof (rule load_agent_handles_Inr)
  fix raw payload stamp declared
  assume "committed = Inr raw" "Option.bind (decode_strict raw) json_loads = Some (JObj payload)"
    "map_of payload ''handles'' = Some (JArr (map JStr declared))" "map_of payload ''stamp'' = Some stamp"
    "py_str stamp = stamp_for declared" "hs = sorted_set (map lower declared)" "MIN_HANDLES \<le> length hs"
  moreover from this(6) have "map lower hs = hs" by (intro map_idI) auto
  ultimately show ?thesis by (auto simp: get_map_of MIN_HANDLES_def)
qed

text \<open>A stamped document of canonical handles loads.\<close>

lemma payload_loads:
  assumes "sorted hs" "distinct hs" "\<forall>h\<in>set hs. lower h = h"
    and "8 \<le> length hs" "list_all (\<lambda>h. ascii h \<and> h \<noteq> [] \<and> strip h = h) hs" "ascii commit" "ascii ref"
  shows "load_agent_handles (Inr (json_dumps (indent_style 2) (denylist_payload hs commit ref) @ [NL])) = Inr hs"
proof -
  let ?p = "denylist_payload hs commit ref"
  let ?out = "json_dumps (indent_style 2) ?p @ [NL]"
  have "ascii DENYLIST_DOC" by code_simp
  moreover have "ascii (stamp_for hs)"
    using sha256_hex_char by (force simp: stamp_for_def ascii_def char_class_defs)
  ultimately have plain: "plain_json ?p"
    using assms(5-7) by (auto simp: denylist_payload_def list_all_iff)
  have "decode_strict ?out = Some ?out" by (simp add: printable_valid printable_dumps plain)
  moreover have "json_loads ?out = Some ?p"
    by (rule loads_dumps[OF styles_ok(3) plain]) (simp add: is_json_ws_def)
  moreover have "list_all nonempty_string (map JStr hs)"
    using assms(5) by (auto simp: list_all_iff nonempty_string_def)
  moreover have "sorted_set (map lower hs) = hs"
    using assms(1-3) by (simp add: map_idI sorted_set_idem)
  ultimately show ?thesis
    using assms(4,5)
    by (simp add: load_agent_handles_def denylist_payload_def stamp_for_def Let_def list_ex_iff list_all_iff
        MIN_HANDLES_def comp_def)
qed

definition demo_handles :: "string list" where
  "demo_handles = [''aidanby'', ''ann'', ''bob'', ''cyd'', ''dee'', ''eve'', ''fay'', ''hongsksam'']"

definition demo_denylist :: bytes where
  "demo_denylist = json_dumps (indent_style 2) (denylist_payload demo_handles ''c0ffee'' ''main'') @ [NL]"

lemma demo_handles_ok:
  "sorted demo_handles" "distinct demo_handles" "\<forall>h\<in>set demo_handles. lower h = h" "8 \<le> length demo_handles"
  "list_all (\<lambda>h. ascii h \<and> h \<noteq> [] \<and> strip h = h) demo_handles"
  by code_simp+

lemma demo_denylist_loads: "load_agent_handles (Inr demo_denylist) = Inr demo_handles"
  unfolding demo_denylist_def by (rule payload_loads) (simp_all add: demo_handles_ok)


text \<open>A source repository whose roster derives the eight handles.\<close>

definition demo_source :: obj where
  "demo_source = [(''roles'', JObj (map (\<lambda>n. (n, JNull)) [''Ann'', ''bob'', ''cyd'', ''dee'', ''eve'', ''fay'', ''qa'']))]"

definition demo_git :: process where
  "demo_git argv =
     (if argv = rev_parse_args ''r'' ''main'' then Inr \<lparr>returncode = 0, stdout = ''c0ffee'' @ [NL], stderr = []\<rparr>
      else if argv = show_args ''r'' ''c0ffee'' ROLES_PATH then Inr (prints (JObj demo_source))
      else Inr \<lparr>returncode = 128, stdout = [], stderr = ''fatal''\<rparr>)"

lemma demo_git_answers:
  "demo_git (rev_parse_args ''r'' ''main'') = Inr \<lparr>returncode = 0, stdout = ''c0ffee'' @ [NL], stderr = []\<rparr>"
  "strip (''c0ffee'' @ [NL]) = ''c0ffee''"
  "answers demo_git (show_args ''r'' ''c0ffee'' ROLES_PATH) (JObj demo_source)"
proof -
  show "strip (''c0ffee'' @ [NL]) = ''c0ffee''" by code_simp
  have "demo_git (show_args ''r'' ''c0ffee'' ROLES_PATH) = Inr (prints (JObj demo_source))"
    by (simp add: demo_git_def rev_parse_args_def show_args_def)
  moreover have "plain_json (JObj demo_source)" by code_simp
  ultimately show "answers demo_git (show_args ''r'' ''c0ffee'' ROLES_PATH) (JObj demo_source)"
    by (rule answers_prints)
qed (simp add: demo_git_def)

lemma demo_source_handles: "derive_handles demo_source [] = Inr demo_handles"
  by code_simp

lemma demo_gen: "gen_command demo_git ''r'' ''main'' = Inr demo_denylist"
proof -
  obtain body where b: "git_show demo_git ''r'' ''c0ffee'' ROLES_PATH = Inr body" "json_loads body = Some (JObj demo_source)"
    using demo_git_answers(3)
    by (auto simp: git_show_def git_call_Inr answers_def json_answer_def split: if_splits)
  have r: "rev_parse demo_git ''r'' ''main'' = Inr (''c0ffee'' @ [NL])"
    unfolding rev_parse_def git_call_def demo_git_answers(1) by simp
  show ?thesis
    unfolding gen_command_def gen_main_def r sum.case demo_git_answers(2) Let_def b option.case json.case
      build_denylist_def demo_source_handles bind_res_simps demo_denylist_def by (rule refl)
qed


theorem denylist_loader_fail_closed_witness:
  "sorted demo_handles \<and> 8 \<le> length demo_handles \<and>
    (\<exists>raw payload declared stamp. Inr demo_denylist = (Inr raw :: string + bytes) \<and>
       Option.bind (decode_strict raw) json_loads = Some (JObj payload) \<and>
       get payload ''handles'' = JArr (map JStr declared) \<and> get payload ''stamp'' = stamp \<and>
       py_str stamp = stamp_for declared \<and> set demo_handles = lower ` set declared)"
  using denylist_loader_fail_closed[OF demo_denylist_loads] by blast

text \<open>A line with the private repository pointer never escapes both tiers: what the warn pattern
  excludes, a blocking pattern matches.\<close>

theorem pointer_reported:
  "metadata (a @ ''athanor-kairos'' @ b) \<or> forbidden path (a @ ''athanor-kairos'' @ b)"
proof -
  let ?l = "a @ ''athanor-kairos'' @ b"
  let ?ops = "rlit (''athanor-'' @ ''kairos-runall'')" and ?ptr = "rlit (''athanor-'' @ ''kairos'')"
  have ptr: "rx_search ?ptr ?l" unfolding rx_search_lit by (auto simp: contains_iff)
  have "(''internal ops repo'', ?ops) \<in> set BLOCK_ALWAYS"
    unfolding BLOCK_ALWAYS_def by (simp del: rlit.simps)
  moreover have "(''private Kairos-repo pointer'', ?ptr, Some ?ops) \<in> set WARN_PATTERNS"
    unfolding WARN_PATTERNS_def by (simp del: rlit.simps)
  ultimately show ?thesis using ptr
    unfolding metadata_def forbidden_def list_ex_iff by fastforce
qed

text \<open>The report partitions the warnings: the staged rows, the generic rows shown and the generic
  rows counted as suppressed add up to all of them, whatever the limit.\<close>

theorem warn_partition:
  "length (staged_rows tier warn) + length (shown_rows cap (generic_rows tier warn))
     + (length (generic_rows tier warn) - length (shown_rows cap (generic_rows tier warn))) = length warn"
proof -
  have "length (shown_rows cap g) \<le> length g" for g :: "string list"
    by (simp add: shown_rows_def py_prefix_def)
  moreover have "length (staged_rows tier warn) + length (generic_rows tier warn) = length warn"
  proof -
    have "filter (\<lambda>w. w \<notin> set (staged_rows tier warn)) warn =
        (if tier = ''warn'' then filter (\<lambda>w. \<not> startswith w (''['' @ HANDLE_LABEL @ '']'')) warn else warn)"
      by (auto simp: staged_rows_def intro: filter_cong)
    then show ?thesis
      using sum_length_filter_compl[of "\<lambda>w. startswith w (''['' @ HANDLE_LABEL @ '']'')" warn]
      by (simp add: generic_rows_def staged_rows_def)
  qed
  ultimately show ?thesis by (metis add.assoc le_add_diff_inverse)
qed

end
