(* ===== verification/ScratchPath.thy ===== *)
theory ScratchPath
  imports Regex JsonText Sha256 Baseline
begin

text \<open>
  \<^verbatim>\<open>src/athanor/check_scratch_path_convention.py\<close>: no published artifact names a working directory
  after a person. The repository is one tree; \<^verbatim>\<open>git ls-tree\<close> is an error text or its output. A tool
  error is the left side \<open>ToolError\<close>; any other left side is an exception nothing catches.
\<close>

section \<open>Segments\<close>

definition SCRATCH_ROOT :: rx where
  "SCRATCH_ROOT =
     rseq [ralts [RSeq (ropt (rchar CHR ''.'')) (rlit_ci ''scratch''), rlit_ci ''tmp'', rlit_ci ''temp'',
                  RSeq (rlit_ci ''work'') (ropt (ralts [rlit_ci ''dir'', rlit_ci ''space''])),
                  rlit_ci ''build'', rlit_ci ''out''],
           rchar CHR ''/'',
           rplus (rcls [AZ, az, d09, single CHR ''.'', single CHR ''_'', single CHR ''-'']),
           rchar CHR ''/'']"

text \<open>\<open>match.group("segment")\<close>: neither a root nor a segment contains a slash.\<close>

definition match_segment :: "string \<Rightarrow> string" where
  "match_segment m = takeWhile (\<lambda>c. c \<noteq> CHR ''/'') (drop 1 (dropWhile (\<lambda>c. c \<noteq> CHR ''/'') m))"

definition is_segment_sep :: "char \<Rightarrow> bool" where
  "is_segment_sep c \<longleftrightarrow> c = CHR ''.'' \<or> c = CHR ''_'' \<or> c = CHR ''-''"

text \<open>\<open>re.split(r"[._-]+", segment)\<close>.\<close>

function split_runs :: "string \<Rightarrow> string list" where
  "split_runs s =
     takeWhile (\<lambda>c. \<not> is_segment_sep c) s #
       (case dropWhile (\<lambda>c. \<not> is_segment_sep c) s of
          [] \<Rightarrow> []
        | c # r \<Rightarrow> split_runs (dropWhile is_segment_sep r))"
  by pat_completeness auto
termination
proof (relation "measure length", simp, clarsimp)
  fix s r :: string and c
  assume "dropWhile (\<lambda>c. \<not> is_segment_sep c) s = c # r"
  then have "length (c # r) \<le> length s" by (metis length_dropWhile_le)
  moreover have "length (dropWhile is_segment_sep r) \<le> length r" by (rule length_dropWhile_le)
  ultimately show "length (dropWhile is_segment_sep r) < length s" by simp
qed

declare split_runs.simps [simp del]

definition line_segments :: "str \<Rightarrow> string list" where
  "line_segments line = map match_segment (findall SCRATCH_ROOT line)"

definition names_person :: "string list \<Rightarrow> string \<Rightarrow> bool" where
  "names_person handles segment = list_ex (\<lambda>part. lower part \<in> set handles) (split_runs segment)"

text \<open>The segments reported for one line: \<open>seen\<close> holds the pairs of line and segment already
  reported in this file.\<close>

definition line_hits :: "string list \<Rightarrow> str \<Rightarrow> string list" where
  "line_hits handles line =
     rev (foldl (\<lambda>acc seg. if names_person handles seg \<and> seg \<notin> set acc then seg # acc else acc) []
       (line_segments line))"

section \<open>The tree\<close>

definition DENYLIST_PATH :: path where
  "DENYLIST_PATH = [''athanor'', ''fleet_handle_denylist.json'']"

definition BASELINE_PATH :: path where
  "BASELINE_PATH = [''athanor'', ''ath3397_known_scratch_paths.json'']"

definition read_json :: "node \<Rightarrow> path \<Rightarrow> json option" where
  "read_json fs p = Option.bind (read_text fs p) json_loads"

definition scratch_handles :: "node \<Rightarrow> string list res" where
  "scratch_handles fs =
     (if \<not> is_file fs DENYLIST_PATH then Inl (ToolError ''denylist absent'')
      else (case read_json fs DENYLIST_PATH of
        None \<Rightarrow> Inl (ToolError ''denylist unreadable'')
      | Some (JObj doc) \<Rightarrow>
          (case get doc ''handles'' of
             JArr names \<Rightarrow>
               if names = [] then Inl (ToolError ''carries no handles'')
               else Inr (map (\<lambda>n. lower (py_str n)) (filter (\<lambda>n. strip (py_str n) \<noteq> []) names))
           | _ \<Rightarrow> Inl (ToolError ''carries no handles''))
      | Some _ \<Rightarrow> Inl AttributeError))"

definition scratch_committed_files :: "string + string \<Rightarrow> string list res" where
  "scratch_committed_files ls =
     (case ls of Inl err \<Rightarrow> Inl (ToolError err)
      | Inr out \<Rightarrow> Inr (filter (\<lambda>l. strip l \<noteq> []) (splitlines out)))"

definition ARTIFACT_PREFIX :: string where
  "ARTIFACT_PREFIX = ''athanor_artifacts/''"

text \<open>\<open>scope\<close>: how many committed files are examined, and how many are not.\<close>

definition scratch_scope :: "string + string \<Rightarrow> (nat \<times> nat) res" where
  "scratch_scope ls =
     bind_res (scratch_committed_files ls) (\<lambda>files.
       let examined = length (filter (\<lambda>f. startswith f ARTIFACT_PREFIX) files)
       in Inr (examined, length files - examined))"

definition scratch_row :: "string \<Rightarrow> nat \<Rightarrow> string \<Rightarrow> string" where
  "scratch_row rel lineno segment =
     rel @ '':'' @ dec lineno @ '': working-directory segment '' @ repr_str segment @
     '' is named after a fleet-agent handle''"

definition file_rows :: "string list \<Rightarrow> string \<Rightarrow> str \<Rightarrow> string list" where
  "file_rows handles rel body =
     concat (map (\<lambda>(lineno, line). map (scratch_row rel lineno) (line_hits handles line))
       (enumerate_from 1 (splitlines body)))"

definition scratch_file :: "node \<Rightarrow> string list \<Rightarrow> string \<Rightarrow> string list" where
  "scratch_file fs handles rel =
     (if \<not> startswith rel ARTIFACT_PREFIX then []
      else (case read_text_replace fs (join_path [] rel) of
        None \<Rightarrow> []
      | Some body \<Rightarrow> file_rows handles rel body))"

definition scratch_findings :: "node \<Rightarrow> string + string \<Rightarrow> string list res" where
  "scratch_findings fs ls =
     bind_res (scratch_handles fs) (\<lambda>handles.
     bind_res (scratch_committed_files ls) (\<lambda>files.
       Inr (sort (concat (map (scratch_file fs handles) files)))))"

section \<open>The baseline and the verdict\<close>

definition finding_key :: "string \<Rightarrow> string" where
  "finding_key finding = sha256 finding"

definition scratch_baseline :: "node \<Rightarrow> path \<Rightarrow> bool \<Rightarrow> string list res" where
  "scratch_baseline fs p explicit =
     (if \<not> is_file fs p then (if explicit then Inl (ToolError ''baseline file missing'') else Inr [])
      else (case read_json fs p of
        None \<Rightarrow> Inl (ToolError ''baseline unparseable'')
      | Some (JObj doc) \<Rightarrow>
          (case get doc ''entries'' of
             JArr es \<Rightarrow> Inr (map py_str es)
           | _ \<Rightarrow> Inl (ToolError ''no entries list''))
      | Some _ \<Rightarrow> Inl AttributeError))"

text \<open>The verdict on the keys found and the keys known: orphaned entries first.\<close>

definition orphaned_keys :: "string list \<Rightarrow> string list \<Rightarrow> string list" where
  "orphaned_keys found known = sorted_set (filter (\<lambda>k. k \<notin> set found) known)"

definition unbaselined_keys :: "string list \<Rightarrow> string list \<Rightarrow> string list" where
  "unbaselined_keys found known = filter (\<lambda>k. k \<notin> set known) (sorted_set found)"

definition scratch_verdict :: "string list \<Rightarrow> string list \<Rightarrow> nat" where
  "scratch_verdict found known =
     (if orphaned_keys found known \<noteq> [] then 1
      else if unbaselined_keys found known \<noteq> [] then 1 else 0)"

record scratch_args =
  sa_baseline :: "path option"
  sa_no_baseline :: bool
  sa_emit :: bool

definition known_keys :: "node \<Rightarrow> scratch_args \<Rightarrow> string list res" where
  "known_keys fs args =
     (if sa_no_baseline args then Inr []
      else (case sa_baseline args of
        None \<Rightarrow> scratch_baseline fs BASELINE_PATH False
      | Some p \<Rightarrow> scratch_baseline fs p True))"

text \<open>The exit code for an exception: 2 where the code reports a tool error, 1 where it escapes.\<close>

definition error_code :: "py_error \<Rightarrow> nat" where
  "error_code e = (case e of ToolError _ \<Rightarrow> 2 | _ \<Rightarrow> 1)"

definition emitted_baseline :: "string list \<Rightarrow> json" where
  "emitted_baseline found =
     JObj [(''schema'', JStr ''ath3397_known_scratch_paths_v1''),
           (''why'', JStr (''Working-directory segments named after a fleet agent that were '' @
              ''ALREADY committed when this check landed. DERIVED from the '' @
              ''checker's own output. Each entry is a DEFECT AWAITING '' @
              ''NORMALISATION, not accepted state. Entries leave as they are '' @
              ''corrected; delete the file when empty.'')),
           (''corrected_by'', JStr ''ATH-3397 scratch-path normalisation''),
           (''entries'', JArr (map JStr (sort (map finding_key found)))),
           (''entry_count'', JInt (int (length found)))]"

definition scratch_main :: "node \<Rightarrow> string + string \<Rightarrow> scratch_args \<Rightarrow> nat \<times> string" where
  "scratch_main fs ls args =
     (case scratch_findings fs ls of
        Inl e \<Rightarrow> (error_code e, [])
      | Inr found \<Rightarrow>
          if sa_emit args then (0, json_dumps (indent_style 1) (emitted_baseline found) @ [NL])
          else (case known_keys fs args of
            Inl e \<Rightarrow> (error_code e, [])
          | Inr known \<Rightarrow> (scratch_verdict (map finding_key found) known, [])))"

interpretation scratch_gate: ratchet scratch_verdict
  by unfold_locales
    (auto simp: scratch_verdict_def orphaned_keys_def unbaselined_keys_def filter_empty_conv)

section \<open>Lemmas\<close>

lemma line_hits_set: "set (line_hits handles line) = {s \<in> set (line_segments line). names_person handles s}"
proof -
  have "set (foldl (\<lambda>acc seg. if names_person handles seg \<and> seg \<notin> set acc then seg # acc else acc) acc segs)
      = set acc \<union> {s \<in> set segs. names_person handles s}" for acc segs
    by (induction segs arbitrary: acc) auto
  then show ?thesis by (simp add: line_hits_def)
qed

lemma split_runs_no_sep: "p \<in> set (split_runs s) \<Longrightarrow> c \<in> set p \<Longrightarrow> \<not> is_segment_sep c"
proof (induction s arbitrary: p rule: split_runs.induct)
  case (1 s)
  show ?case
  proof (cases "dropWhile (\<lambda>c. \<not> is_segment_sep c) s")
    case Nil
    with "1.prems" show ?thesis by (auto simp: split_runs.simps[of s] dest: set_takeWhileD)
  next
    case (Cons d r)
    with "1.prems" "1.IH"[OF Cons] show ?thesis
      by (auto simp: split_runs.simps[of s] dest: set_takeWhileD)
  qed
qed

section \<open>Properties\<close>

text \<open>C16: the run passes exactly when the findings could be established, the baseline could be read
  (or its default file is absent), and the digests of the findings are exactly the entries.\<close>

theorem scratch_pass_exact:
  "fst (scratch_main fs ls \<lparr>sa_baseline = b, sa_no_baseline = nb, sa_emit = False\<rparr>) = 0 \<longleftrightarrow>
    (\<exists>found known. scratch_findings fs ls = Inr found \<and>
       known_keys fs \<lparr>sa_baseline = b, sa_no_baseline = nb, sa_emit = False\<rparr> = Inr known \<and>
       sha256 ` set found = set known)"
  by (auto simp: scratch_main_def error_code_def scratch_gate.zero_iff finding_key_def
      split: sum.splits py_error.splits)

text \<open>C25: a baseline written by \<^verbatim>\<open>--emit-baseline\<close> and committed at the default path makes a run with
  the same findings pass.\<close>

theorem emitted_baseline_passes:
  assumes "scratch_findings fs ls = Inr found"
    and "read_bytes fs BASELINE_PATH = Some (snd (scratch_main fs' ls' \<lparr>sa_baseline = b, sa_no_baseline = nb, sa_emit = True\<rparr>))"
    and "scratch_findings fs' ls' = Inr found"
  shows "scratch_main fs ls \<lparr>sa_baseline = None, sa_no_baseline = False, sa_emit = False\<rparr> = (0, [])"
proof -
  let ?v = "emitted_baseline found"
  let ?s = "json_dumps (indent_style 1) ?v @ [NL]"
  have "ascii (sha256 x)" for x using sha256_hex_char by (force simp: ascii_def char_class_defs)
  then have plain: "plain_json ?v"
    by (auto simp: emitted_baseline_def list_all_iff finding_key_def)
  have "read_bytes fs BASELINE_PATH = Some ?s" using assms(2,3) by (simp add: scratch_main_def)
  then have "is_file fs BASELINE_PATH" and "read_text fs BASELINE_PATH = Some ?s"
    by (auto simp: read_bytes_iff_file intro!: read_text_printable printable_dumps plain)
  moreover have "json_loads ?s = Some ?v"
    by (rule loads_dumps[OF styles_ok(3) plain]) (simp add: is_json_ws_def)
  ultimately have "scratch_baseline fs BASELINE_PATH False = Inr (sort (map finding_key found))"
    by (simp add: scratch_baseline_def read_json_def emitted_baseline_def comp_def)
  then show ?thesis
    using assms(1) by (simp add: scratch_main_def known_keys_def scratch_gate.agreed_passes)
qed

text \<open>A small repository: a denylist with one handle, and a log that names it.\<close>

definition demo_log :: bytes where
  "demo_log = ''read /x/.scratch/zed_run/a.v'' @ [NL] @ ''ok'' @ [NL]"

definition demo_denylist_text :: bytes where
  "demo_denylist_text = json_dumps default_style (JObj [(''handles'', JArr [JStr ''zed''])])"

definition demo_repo :: "bytes option \<Rightarrow> node" where
  "demo_repo baseline =
     Dir [(''athanor'', Dir ((''fleet_handle_denylist.json'', File demo_denylist_text)
             # (case baseline of None \<Rightarrow> [] | Some b \<Rightarrow> [(''ath3397_known_scratch_paths.json'', File b)]))),
          (''athanor_artifacts'', Dir [(''p'', Dir [(''a.log'', File demo_log)])])]"

definition demo_ls :: "string + string" where
  "demo_ls = Inr (''athanor_artifacts/p/a.log'' @ [NL])"

definition demo_found :: "string list" where
  "demo_found = [scratch_row ''athanor_artifacts/p/a.log'' 1 ''zed_run'']"

lemma demo_findings: "scratch_findings (demo_repo b) demo_ls = Inr demo_found"
proof -
  have plain: "plain_json (JObj [(''handles'', JArr [JStr ''zed''])])" by (simp add: ascii_def)
  have dl: "read_text (demo_repo b) DENYLIST_PATH = Some demo_denylist_text"
    by (rule read_text_printable)
      (auto simp: demo_repo_def read_bytes_def DENYLIST_PATH_def demo_denylist_text_def
        intro: printable_dumps plain split: option.splits)
  have loads: "json_loads demo_denylist_text = Some (JObj [(''handles'', JArr [JStr ''zed''])])"
    using loads_dumps[OF styles_ok(2) plain, of "[]"] by (simp add: demo_denylist_text_def)
  have isf: "is_file (demo_repo b) DENYLIST_PATH"
    by (simp add: demo_repo_def is_file_def DENYLIST_PATH_def split: option.splits)
  have h: "scratch_handles (demo_repo b) = Inr [''zed'']"
  proof -
    have "lower ''zed'' = ''zed''" "strip ''zed'' \<noteq> []" by code_simp+
    then show ?thesis using dl loads isf by (simp add: scratch_handles_def read_json_def)
  qed
  have log: "read_text_replace (demo_repo b) (join_path [] ''athanor_artifacts/p/a.log'') = Some demo_log"
  proof -
    have "join_path [] ''athanor_artifacts/p/a.log'' = [''athanor_artifacts'', ''p'', ''a.log'']" by code_simp
    moreover have "read_bytes (demo_repo b) [''athanor_artifacts'', ''p'', ''a.log''] = Some demo_log"
      by (simp add: demo_repo_def read_bytes_def split: option.splits)
    moreover have "universal_newlines (decode_replace demo_log) = demo_log" by code_simp
    ultimately show ?thesis by (simp add: read_text_replace_def)
  qed
  have ls: "scratch_committed_files demo_ls = Inr [''athanor_artifacts/p/a.log'']" by code_simp
  have rows: "file_rows [''zed''] ''athanor_artifacts/p/a.log'' demo_log = demo_found" by code_simp
  have pre: "startswith ''athanor_artifacts/p/a.log'' ARTIFACT_PREFIX" by code_simp
  show ?thesis
    by (simp only: scratch_findings_def h ls bind_res_simps list.map scratch_file_def log pre not_True_eq_False
        if_False option.case rows concat.simps append_Nil2) (simp add: demo_found_def)
qed

theorem emitted_baseline_passes_witness:
  "\<exists>base. scratch_main (demo_repo (Some base)) demo_ls
     \<lparr>sa_baseline = None, sa_no_baseline = False, sa_emit = False\<rparr> = (0, [])"
proof -
  let ?base = "snd (scratch_main (demo_repo None) demo_ls \<lparr>sa_baseline = None, sa_no_baseline = False, sa_emit = True\<rparr>)"
  have "read_bytes (demo_repo (Some ?base)) BASELINE_PATH = Some ?base"
    by (simp add: demo_repo_def read_bytes_def BASELINE_PATH_def)
  from emitted_baseline_passes[OF demo_findings this demo_findings] show ?thesis by blast
qed

text \<open>The directory names the pattern takes for scratch roots.\<close>

definition SCRATCH_NAMES :: "string list" where
  "SCRATCH_NAMES =
     [''scratch'', ''.scratch'', ''tmp'', ''temp'', ''work'', ''workdir'', ''workspace'', ''build'', ''out'']"

definition segment_char :: "char \<Rightarrow> bool" where
  "segment_char c \<longleftrightarrow> is_upper c \<or> is_lower c \<or> is_digit c \<or> is_segment_sep c"

lemma in_class_segment:
  "in_class \<lparr>cc_neg = False, cc_ci = False,
     cc_ranges = [AZ, az, d09, single CHR ''.'', single CHR ''_'', single CHR ''-'']\<rparr> c \<longleftrightarrow> segment_char c"
  by (auto simp: in_class_def in_ranges_def segment_char_def is_upper_def is_lower_def is_digit_def
      is_segment_sep_def single_def in_range_def)

lemma rplus_segment_matches:
  "rx_matches (rplus (rcls [AZ, az, d09, single CHR ''.'', single CHR ''_'', single CHR ''-''])) pre s post \<longleftrightarrow>
     s \<noteq> [] \<and> (\<forall>c\<in>set s. segment_char c)"
proof -
  have "rx_matches (rplus (rcls [AZ, az, d09, single CHR ''.'', single CHR ''_'', single CHR ''-''])) pre s post \<longleftrightarrow>
      (\<exists>c t. s = c # t \<and> segment_char c \<and> (\<forall>d\<in>set t. segment_char d))"
    unfolding rplus_def rcls_def m_seq_iff m_cls_iff rstar_cls_matches in_class_segment
    by (metis append_Cons append_Nil)
  then show ?thesis by (cases s) auto
qed

lemma scratch_root_matches:
  assumes "rx_matches SCRATCH_ROOT pre m post"
  shows "\<exists>base seg. m = base @ ''/'' @ seg @ ''/'' \<and> lower base \<in> set SCRATCH_NAMES \<and> seg \<noteq> []
    \<and> (\<forall>c\<in>set seg. segment_char c)"
proof -
  have lows: "lower ''scratch'' = ''scratch''" "lower ''tmp'' = ''tmp''" "lower ''temp'' = ''temp''"
    "lower ''work'' = ''work''" "lower ''dir'' = ''dir''" "lower ''space'' = ''space''"
    "lower ''build'' = ''build''" "lower ''out'' = ''out''" by code_simp+
  have dot: "lower (CHR ''.'' # s) = CHR ''.'' # lower s" for s by (simp add: lower_def to_lower_def char_class_defs)
  have app: "lower (s @ t) = lower s @ lower t" for s t by (simp add: lower_def)
  from assms obtain base sl seg sl' where m: "m = base @ sl @ seg @ sl'" "sl = ''/''" "sl' = ''/''"
      "seg \<noteq> []" "\<forall>c\<in>set seg. segment_char c" and
    base: "rx_matches (ralts [RSeq (ropt (rchar CHR ''.'')) (rlit_ci ''scratch''), rlit_ci ''tmp'', rlit_ci ''temp'',
                  RSeq (rlit_ci ''work'') (ropt (ralts [rlit_ci ''dir'', rlit_ci ''space''])),
                  rlit_ci ''build'', rlit_ci ''out'']) pre base (sl @ seg @ sl' @ post)"
    unfolding SCRATCH_ROOT_def rseq.simps m_seq_iff rchar_matches rplus_segment_matches by auto
  have "lower base \<in> set SCRATCH_NAMES"
    using base unfolding ralts_matches
    by (auto simp: m_seq_iff ralts_matches ropt_matches rchar_matches rlit_ci_matches lows SCRATCH_NAMES_def dot app
        simp del: rlit_ci.simps ralts.simps)
  with m show ?thesis by auto
qed

text \<open>Every segment the scan looks at stands on the line between slashes, right after one of the
  scratch directory names in any case.\<close>

theorem segment_stands_on_line:
  assumes "seg \<in> set (line_segments line)"
  shows "\<exists>a base b. line = a @ base @ ''/'' @ seg @ ''/'' @ b \<and> lower base \<in> set SCRATCH_NAMES"
proof -
  from assms obtain p q where pq: "(p, q) \<in> set (finditer SCRATCH_ROOT line)" "seg = match_segment (matched p q)"
    by (auto simp: line_segments_def findall_def)
  have "reaches SCRATCH_ROOT p q" using finditer_sound pq(1) unfolding finditer_def by blast
  then obtain m where m: "snd p = m @ snd q" "rx_matches SCRATCH_ROOT (fst p) m (snd q)"
    unfolding reaches_def by blast
  from m(1) have mt: "matched p q = m" by (simp add: matched_def)
  from scratch_root_matches[OF m(2)] obtain base sg where
    sg: "m = base @ ''/'' @ sg @ ''/''" "lower base \<in> set SCRATCH_NAMES" "\<forall>c\<in>set sg. segment_char c" by blast
  have nb: "CHR ''/'' \<notin> set base"
  proof
    assume "CHR ''/'' \<in> set base"
    then have "to_lower CHR ''/'' \<in> set (lower base)" by (simp add: lower_def)
    then have "CHR ''/'' \<in> set (lower base)" by (simp add: to_lower_def char_class_defs)
    with sg(2) show False by (auto simp: SCRATCH_NAMES_def)
  qed
  have ns: "CHR ''/'' \<notin> set sg" using sg(3) by (auto simp: segment_char_def char_class_defs is_segment_sep_def)
  have nb': "\<forall>c\<in>set base. c \<noteq> CHR ''/''" and ns': "\<forall>c\<in>set sg. c \<noteq> CHR ''/''" using nb ns by auto
  then have "dropWhile (\<lambda>c. c \<noteq> CHR ''/'') (base @ CHR ''/'' # sg @ ''/'') = CHR ''/'' # sg @ ''/''"
    by (simp add: dropWhile_append2)
  moreover have "takeWhile (\<lambda>c. c \<noteq> CHR ''/'') (sg @ ''/'') = sg"
    using ns' by (simp add: takeWhile_append2)
  ultimately have "match_segment m = sg" by (simp add: match_segment_def sg(1))
  moreover obtain a where "line = a @ snd p"
    using finditer_suffix[OF pq(1)] by blast
  ultimately show ?thesis using sg m(1) pq(2) mt by (metis append.assoc)
qed

theorem segment_stands_on_line_witness:
  "\<exists>a base b. ''at /x/.scratch/zed_run/a.v'' = a @ base @ ''/'' @ ''zed_run'' @ ''/'' @ b \<and> lower base \<in> set SCRATCH_NAMES"
proof -
  have "''zed_run'' \<in> set (line_segments ''at /x/.scratch/zed_run/a.v'')" by code_simp
  then show ?thesis by (rule segment_stands_on_line)
qed

text \<open>The scan consumes a root together with the segment after it, so a scratch directory inside
  another one hides the name: \<^verbatim>\<open>out/zed_run/\<close> is reported, and the same path under \<^verbatim>\<open>build/\<close> is not.\<close>

theorem nested_root_hides_name:
  "line_hits [''zed''] ''out/zed_run/f.v'' = [''zed_run''] \<and> line_hits [''zed''] ''build/out/zed_run/f.v'' = []"
  by code_simp

end
