(* ===== verification/ScrubClosure.thy ===== *)
theory ScrubClosure
  imports Regex JsonText Sha256
begin

text \<open>
  \<^verbatim>\<open>src/athanor/check_scrub_hash_closure.py\<close>: after a scrub, no occurrence of a changed file's old
  digest survives in the committed tree. The three \<^verbatim>\<open>git\<close> calls are the record \<open>git_repo\<close>
  (\<open>None\<close> is a failing call); what they print is parsed here. Offsets count bytes of the decoded
  text, on both sides of every comparison.

  \<open>ToolError\<close> is the code's exception of that name. A malformed answer of \<^verbatim>\<open>cat-file\<close> raises an
  exception nothing catches (\<open>ValueError\<close>).
\<close>

section \<open>Reading trees from git\<close>

record git_repo =
  rev_ok :: "string \<Rightarrow> bool"                \<comment> \<open>\<^verbatim>\<open>rev-parse --verify ref^{commit}\<close> succeeds\<close>
  ls_tree_z :: "string \<Rightarrow> bytes option"     \<comment> \<open>\<^verbatim>\<open>ls-tree -r -z ref\<close>\<close>
  cat_file :: "bytes \<Rightarrow> bytes option"       \<comment> \<open>\<^verbatim>\<open>cat-file --batch\<close> on this input\<close>

text \<open>One record \<^verbatim>\<open><mode> <type> <oid>\t<path>\<close>; trees and submodules are not blobs.\<close>

definition parse_entry :: "string \<Rightarrow> (string \<times> string) option" where
  "parse_entry rec =
     (if strip rec = [] then None
      else (case partition_on TAB rec of (meta, path) \<Rightarrow>
        (case split_ws meta of
           mode # typ # oid # _ \<Rightarrow> if typ = ''blob'' then Some (oid, path) else None
         | _ \<Rightarrow> None)))"

definition parse_listing :: "bytes \<Rightarrow> (string \<times> string) list" where
  "parse_listing listing = List.map_filter parse_entry (split_on NUL listing)"

definition batch_input :: "(string \<times> string) list \<Rightarrow> bytes" where
  "batch_input entries = join [NL] (map fst entries) @ [NL]"

text \<open>\<open>int(b)\<close> of a field of decimal digits.\<close>

definition int_field :: "bytes \<Rightarrow> nat option" where
  "int_field b = (if b \<noteq> [] \<and> list_all is_digit b then Some (digits_val b) else None)"

text \<open>The loop over the entries: a header line, \<open>size\<close> bytes, and one more byte.\<close>

fun read_batch :: "string list \<Rightarrow> bytes \<Rightarrow> (string \<times> bytes) list res" where
  "read_batch [] out = Inr []"
| "read_batch (path # paths) out =
     (if NL \<notin> set out then Inl (ValueError ''subsection not found'')
      else let header = takeWhile (\<lambda>c. c \<noteq> NL) out;
               rest = drop 1 (dropWhile (\<lambda>c. c \<noteq> NL) out)
           in (case split_ws header of
                 a # b # sz # _ \<Rightarrow>
                   (case int_field sz of
                      None \<Rightarrow> Inl (ValueError ''invalid literal'')
                    | Some nbytes \<Rightarrow>
                        bind_res (read_batch paths (drop (nbytes + 1) rest)) (\<lambda>more.
                          Inr ((path, take nbytes rest) # more)))
               | _ \<Rightarrow> Inl (ValueError ''index out of range'')))"

definition closure_committed_files :: "git_repo \<Rightarrow> string \<Rightarrow> (string \<times> bytes) list res" where
  "closure_committed_files repo ref =
     (case ls_tree_z repo ref of
        None \<Rightarrow> Inl (ToolError ''could not enumerate the tree'')
      | Some listing \<Rightarrow>
          let entries = parse_listing listing in
          if entries = [] then Inr []
          else (case cat_file repo (batch_input entries) of
            None \<Rightarrow> Inl (ToolError ''could not read blobs'')
          | Some out \<Rightarrow> read_batch (map snd entries) out))"

text \<open>\<open>_base_blobs\<close>: the same reading, as a dictionary from paths to digests.\<close>

definition base_blobs :: "git_repo \<Rightarrow> string \<Rightarrow> (string \<times> string) list res" where
  "base_blobs repo ref =
     bind_res (closure_committed_files repo ref) (\<lambda>files.
       Inr (dict_of (map (\<lambda>(path, body). (path, sha256 body)) files)))"

section \<open>What changed\<close>

definition superseded_of :: "(string \<times> string) list \<Rightarrow> (string \<times> string) list \<Rightarrow> (string \<times> string) list" where
  "superseded_of at_base at_head = filter (\<lambda>(path, sha). map_of at_head path \<noteq> Some sha) at_base"

definition superseded_content :: "git_repo \<Rightarrow> string \<Rightarrow> (string \<times> string) list res" where
  "superseded_content repo base =
     (if \<not> rev_ok repo base then Inl (ToolError ''base ref does not resolve'')
      else bind_res (base_blobs repo base) (\<lambda>at_base.
           bind_res (base_blobs repo ''HEAD'') (\<lambda>at_head. Inr (superseded_of at_base at_head))))"

definition first_at :: "(string \<times> string) list \<Rightarrow> (string \<times> string) list" where
  "first_at at_head = foldl (\<lambda>d (path, sha). dict_setdefault d sha path) [] at_head"

definition moved_of :: "(string \<times> string) list \<Rightarrow> (string \<times> string) list \<Rightarrow> (string \<times> string) list" where
  "moved_of at_base at_head =
     List.map_filter (\<lambda>(path, sha).
        if map_of at_head path = Some sha then None
        else if map_of at_head path \<noteq> None then None
        else (case map_of (first_at at_head) sha of
                Some landed \<Rightarrow> if landed \<noteq> path then Some (path, landed) else None
              | None \<Rightarrow> None)) at_base"

definition moved_content :: "git_repo \<Rightarrow> string \<Rightarrow> (string \<times> string) list res" where
  "moved_content repo base =
     bind_res (base_blobs repo base) (\<lambda>at_base.
     bind_res (base_blobs repo ''HEAD'') (\<lambda>at_head. Inr (moved_of at_base at_head)))"

section \<open>Records that account for an old digest\<close>

record span_state =
  sp_spans :: "(nat \<times> nat) list"
  sp_stack :: "nat list"
  sp_in_string :: bool
  sp_escaped :: bool

definition span_step :: "span_state \<Rightarrow> nat \<times> char \<Rightarrow> span_state" where
  "span_step st ic =
     (case ic of (index, c) \<Rightarrow>
        if sp_in_string st then
          (if sp_escaped st then st\<lparr>sp_escaped := False\<rparr>
           else if c = BACKSLASH then st\<lparr>sp_escaped := True\<rparr>
           else if c = DQUOTE then st\<lparr>sp_in_string := False\<rparr>
           else st)
        else if c = DQUOTE then st\<lparr>sp_in_string := True\<rparr>
        else if c = CHR ''{'' then st\<lparr>sp_stack := index # sp_stack st\<rparr>
        else if c = CHR ''}'' then
          (case sp_stack st of
             [] \<Rightarrow> st
           | i # is \<Rightarrow> st\<lparr>sp_spans := sp_spans st @ [(i, index)], sp_stack := is\<rparr>)
        else st)"

definition object_spans :: "str \<Rightarrow> (nat \<times> nat) list" where
  "object_spans body =
     sp_spans (foldl span_step \<lparr>sp_spans = [], sp_stack = [], sp_in_string = False, sp_escaped = False\<rparr>
       (enumerate_from 0 body))"

definition KEY_BEFORE :: rx where
  "KEY_BEFORE =
     rseq [rchar DQUOTE, RStar (RAlt (rnot [single DQUOTE, single BACKSLASH]) (RSeq (rchar BACKSLASH) rdot)),
           rchar DQUOTE, RStar rspace, rchar CHR '':'', RStar rspace, RAssert AtEnd]"

text \<open>Group 1: between the first quote and the one before the colon.\<close>

definition key_group :: "string \<Rightarrow> string" where
  "key_group m = drop 1 (rev (drop 1 (dropWhile is_space (drop 1 (dropWhile is_space (rev m))))))"

definition key_naming :: "str \<Rightarrow> nat \<Rightarrow> string option" where
  "key_naming body start =
     map_option (\<lambda>(a, b). key_group (matched a b)) (search_from KEY_BEFORE [] (take start body))"

fun string_values :: "json \<Rightarrow> string list" where
  "string_values (JObj kvs) = concat (map (\<lambda>(k, v). string_values v) kvs)"
| "string_values (JArr xs) = concat (map string_values xs)"
| "string_values (JStr s) = [s]"
| "string_values _ = []"

text \<open>\<open>rel.rsplit("/", 1)[0]\<close>, empty without a slash.\<close>

definition parent_of :: "string \<Rightarrow> string" where
  "parent_of rel = rev (drop 1 (dropWhile (\<lambda>c. c \<noteq> CHR ''/'') (rev rel)))"

text \<open>The committed file a key names: relative to the package first, then to the root.\<close>

definition resolve_name :: "string \<Rightarrow> string \<Rightarrow> (string \<times> string) list \<Rightarrow> string option" where
  "resolve_name rel key at_head =
     (let parent = parent_of rel
      in find (\<lambda>cand. map_of at_head cand \<noteq> None)
           [if parent = [] then key else parent @ ''/'' @ key, key])"

definition slice :: "nat \<Rightarrow> nat \<Rightarrow> 'a list \<Rightarrow> 'a list" where
  "slice i j xs = take (j - i) (drop i xs)"

text \<open>The offsets one object span excuses.\<close>

definition excused_by :: "string \<Rightarrow> str \<Rightarrow> (string \<times> string) list \<Rightarrow> (string \<times> string) list \<Rightarrow> nat \<times> nat \<Rightarrow> nat list" where
  "excused_by rel body at_head old_of ij =
     (case ij of (start, stop) \<Rightarrow>
        (case key_naming body start of
           None \<Rightarrow> []
         | Some raw_key \<Rightarrow>
             (case json_loads (DQUOTE # raw_key @ [DQUOTE]) of
                Some (JStr key) \<Rightarrow>
                  (case resolve_name rel key at_head of
                     None \<Rightarrow> []
                   | Some named \<Rightarrow>
                       (case map_of old_of named of
                          None \<Rightarrow> []
                        | Some prior \<Rightarrow>
                            let piece = slice start (stop + 1) body in
                            (case json_loads piece of
                               None \<Rightarrow> []
                             | Some record \<Rightarrow>
                                 if lower (the (map_of at_head named)) \<in> set (map lower (string_values record))
                                 then map (\<lambda>k. start + k) (occurrences (lower prior) (lower piece))
                                 else [])))
              | _ \<Rightarrow> [])))"

definition excused_spans :: "string \<Rightarrow> str \<Rightarrow> (string \<times> string) list \<Rightarrow> (string \<times> string) list \<Rightarrow> nat list" where
  "excused_spans rel body at_head old_of =
     (if json_loads body = None then []
      else concat (map (excused_by rel body at_head old_of) (object_spans body)))"

section \<open>The sweep\<close>

definition line_context :: "str \<Rightarrow> nat \<Rightarrow> str" where
  "line_context body ofs =
     (let line_start = length (rev (dropWhile (\<lambda>c. c \<noteq> NL) (rev (take ofs body))))
      in strip (takeWhile (\<lambda>c. c \<noteq> NL) (drop line_start body)))"

definition survivor_row :: "string \<Rightarrow> str \<Rightarrow> string \<Rightarrow> string \<Rightarrow> nat \<Rightarrow> string" where
  "survivor_row rel body sha owner ofs =
     rel @ '':'' @ dec (count_list (take ofs (lower body)) NL + 1) @ '': still cites the OLD hash of '' @ owner
     @ '' ('' @ take 12 sha @ ''...) -- update it in the same commit ['' @ take_points 80 (line_context body ofs) @ '']''"

definition file_survivors ::
  "(string \<times> string) list \<Rightarrow> (string \<times> string) list \<Rightarrow> (string \<times> string) list \<Rightarrow> string \<times> bytes \<Rightarrow> string list" where
  "file_survivors wanted old_of at_head f =
     (case f of (rel, blob) \<Rightarrow>
        let body = decode_replace blob;
            excused = (if endswith (lower rel) ''.json'' then excused_spans rel body at_head old_of else [])
        in concat (map (\<lambda>(sha, owner).
             map (survivor_row rel body sha owner)
               (filter (\<lambda>ofs. ofs \<notin> set excused) (occurrences sha (lower body)))) wanted))"

definition wanted_of :: "(string \<times> string) list \<Rightarrow> (string \<times> string) list" where
  "wanted_of hashes = dict_of (map (\<lambda>(rel, sha). (lower sha, rel)) hashes)"

definition surviving_occurrences :: "git_repo \<Rightarrow> (string \<times> string) list \<Rightarrow> string list res" where
  "surviving_occurrences repo hashes =
     bind_res (base_blobs repo ''HEAD'') (\<lambda>at_head.
     bind_res (closure_committed_files repo ''HEAD'') (\<lambda>files.
       Inr (concat (map (file_survivors (wanted_of hashes) (map (\<lambda>(rel, sha). (rel, lower sha)) hashes) at_head) files))))"

definition moved_note :: "string \<times> string \<Rightarrow> string" where
  "moved_note m =
     (case m of (path, landed) \<Rightarrow>
        path @ '': content moved to '' @ landed @ '' unchanged. A citation of its hash may be correct (receipt updated to the new path) or stale (still naming the old one), and the hash cannot distinguish them -- rename is not supported by this check; confirm the citation by hand'')"

definition closure_check :: "git_repo \<Rightarrow> string \<Rightarrow> (string list \<times> string list) res" where
  "closure_check repo base =
     bind_res (moved_content repo base) (\<lambda>moved.
     bind_res (superseded_content repo base) (\<lambda>superseded.
       let gone = filter (\<lambda>(p, h). p \<notin> fst ` set moved) superseded;
           inconclusive = map moved_note (sort_key fst moved)
       in bind_res (if gone \<noteq> [] then surviving_occurrences repo gone else Inr []) (\<lambda>findings.
            Inr (findings, inconclusive))))"

definition closure_main :: "git_repo \<Rightarrow> string \<Rightarrow> nat \<times> line_out list" where
  "closure_main repo base =
     (case closure_check repo base of
        Inl (ToolError e) \<Rightarrow> (2, [Err (''TOOL ERROR: '' @ e)])
      | Inl _ \<Rightarrow> (1, [])
      | Inr (findings, inconclusive) \<Rightarrow>
          let notes = map (\<lambda>n. Err (''INCONCLUSIVE: '' @ n)) inconclusive in
          if findings \<noteq> []
          then (1, notes @ map (\<lambda>f. Err (''FAIL: '' @ f)) findings
                   @ [Err ([NL] @ dec (length findings) @ '' surviving reference(s) to a pre-scrub hash. The scrub and every citation of it must land in ONE commit.'')])
          else if inconclusive \<noteq> []
          then (2, notes @ [Err ([NL] @ dec (length inconclusive) @ '' path(s) could not be decided. No stale reference was demonstrated and none was ruled out.'')])
          else (0, [Out (''OK: no pre-scrub hash survives anywhere in the tree (base '' @ base @ '')'')]))"

section \<open>What git prints\<close>

text \<open>A commit's tree: path, object name, content. The record lines and the batch output are those of
  git's documented formats.\<close>

type_synonym tree = "(string \<times> string \<times> bytes) list"

definition entry_text :: "string \<times> string \<times> bytes \<Rightarrow> string" where
  "entry_text e = (case e of (path, oid, body) \<Rightarrow> ''100644 blob '' @ oid @ [TAB] @ path)"

definition listing_text :: "tree \<Rightarrow> bytes" where
  "listing_text tree = concat (map (\<lambda>r. r @ [NUL]) (map entry_text tree))"

definition batch_text :: "tree \<Rightarrow> bytes" where
  "batch_text tree =
     concat (map (\<lambda>(path, oid, body). oid @ '' blob '' @ dec (length body) @ [NL] @ body @ [NL]) tree)"

definition tree_ok :: "tree \<Rightarrow> bool" where
  "tree_ok tree \<longleftrightarrow> distinct (map fst tree) \<and>
     (\<forall>(path, oid, body)\<in>set tree. NUL \<notin> set path \<and> oid \<noteq> [] \<and> (\<forall>c\<in>set oid. is_hex c))"

definition git_serves :: "git_repo \<Rightarrow> string \<Rightarrow> tree \<Rightarrow> bool" where
  "git_serves repo ref tree \<longleftrightarrow> tree_ok tree \<and> ls_tree_z repo ref = Some (listing_text tree) \<and>
     (tree \<noteq> [] \<longrightarrow> cat_file repo (batch_input (map (\<lambda>(p, oid, b). (oid, p)) tree)) = Some (batch_text tree))"

definition tree_files :: "tree \<Rightarrow> (string \<times> bytes) list" where
  "tree_files tree = map (\<lambda>(p, oid, b). (p, b)) tree"

lemma hex_not_space: "is_hex c \<Longrightarrow> \<not> is_space c \<and> c \<noteq> TAB \<and> c \<noteq> NL \<and> c \<noteq> NUL"
  by (auto simp: char_class_defs)

lemma parse_entry_text:
  assumes "oid \<noteq> []" "\<forall>c\<in>set oid. is_hex c"
  shows "parse_entry (entry_text (path, oid, body)) = Some (oid, path)"
proof -
  let ?meta = "''100644 blob '' @ oid"
  have nt: "\<forall>c\<in>set ?meta. c \<noteq> TAB" using assms(2) hex_not_space by auto
  have part: "partition_on TAB (?meta @ [TAB] @ path) = (?meta, path)"
    using nt by (simp only: partition_on_def takeWhile_append2 dropWhile_append2) simp
  have sp: "is_space CHR '' ''" by (simp add: char_class_defs)
  have "split_ws (''100644'' @ '' '' @ ''blob'' @ '' '' @ oid @ []) = [''100644'', ''blob'', oid]"
  proof -
    have "split_ws (oid @ []) = [oid]"
      using split_ws_word[of oid "[]"] assms hex_not_space by auto
    moreover have "split_ws (''blob'' @ '' '' @ oid @ []) = ''blob'' # split_ws ('' '' @ oid @ [])"
      by (rule split_ws_word) (auto simp: sp char_class_defs)
    moreover have "split_ws (''100644'' @ '' '' @ ''blob'' @ '' '' @ oid @ [])
        = ''100644'' # split_ws ('' '' @ ''blob'' @ '' '' @ oid @ [])"
      by (rule split_ws_word) (auto simp: sp char_class_defs)
    ultimately show ?thesis using split_ws_space[OF sp] by simp
  qed
  then have meta: "split_ws ?meta = [''100644'', ''blob'', oid]" by simp
  have "strip (?meta @ [TAB] @ path) \<noteq> []"
    by (simp add: strip_Nil_iff) (simp add: char_class_defs)
  then show ?thesis
    unfolding parse_entry_def entry_text_def prod.case append.assoc[symmetric]
    using part meta by (simp add: append.assoc)
qed

lemma parse_listing_text:
  assumes "tree_ok tree"
  shows "parse_listing (listing_text tree) = map (\<lambda>(p, oid, b). (oid, p)) tree"
proof -
  have "\<forall>r\<in>set (map entry_text tree). NUL \<notin> set r"
    using assms hex_not_space by (fastforce simp: tree_ok_def entry_text_def)
  then have sp: "split_on NUL (listing_text tree) = map entry_text tree @ [[]]"
    unfolding listing_text_def by (rule split_on_terminated)
  have nil: "parse_entry [] = None" by (simp add: parse_entry_def strip_Nil_iff)
  have "List.map_filter parse_entry (map entry_text ts @ [[]]) = map (\<lambda>(p, oid, b). (oid, p)) ts"
    if "\<forall>(path, oid, body)\<in>set ts. oid \<noteq> [] \<and> (\<forall>c\<in>set oid. is_hex c)" for ts
    using that
  proof (induction ts)
    case (Cons e es)
    obtain p oid b where e: "e = (p, oid, b)" by (cases e) auto
    with Cons.prems have "parse_entry (entry_text e) = Some (oid, p)" by (simp add: parse_entry_text)
    with Cons e show ?case by (simp add: map_filter_simps)
  qed (simp add: map_filter_simps nil)
  moreover have "\<forall>(path, oid, body)\<in>set tree. oid \<noteq> [] \<and> (\<forall>c\<in>set oid. is_hex c)"
    using assms by (fastforce simp: tree_ok_def)
  ultimately show ?thesis unfolding parse_listing_def sp by blast
qed

lemma int_field_dec: "int_field (dec n) = Some n"
  using dec_digits by (auto simp: int_field_def list_all_iff digits_val_dec)

lemma read_batch_text:
  assumes "\<forall>(path, oid, body)\<in>set tree. oid \<noteq> [] \<and> (\<forall>c\<in>set oid. is_hex c)"
  shows "read_batch (map fst tree) (batch_text tree) = Inr (tree_files tree)"
  using assms
proof (induction tree)
  case (Cons e es)
  obtain p oid b where e: "e = (p, oid, b)" by (cases e) auto
  let ?h = "oid @ '' blob '' @ dec (length b)"
  have oid: "oid \<noteq> []" "\<forall>c\<in>set oid. \<not> is_space c \<and> c \<noteq> NL" using Cons.prems e hex_not_space by auto
  have dg: "\<forall>c\<in>set (dec n). \<not> is_space c \<and> c \<noteq> NL" for n
    by (auto simp: char_class_defs dest!: dec_digits)
  have nnl: "\<forall>c\<in>set ?h. c \<noteq> NL" using oid dg by auto
  have tx: "batch_text (e # es) = ?h @ NL # b @ NL # batch_text es" by (simp add: batch_text_def e)
  have tw: "takeWhile (\<lambda>c. c \<noteq> NL) (?h @ NL # r) = ?h" "dropWhile (\<lambda>c. c \<noteq> NL) (?h @ NL # r) = NL # r" for r
    by (rule takeWhile_until[OF nnl])+
  have sp: "is_space CHR '' ''" by (simp add: char_class_defs)
  have "split_ws (oid @ '' '' @ ''blob'' @ '' '' @ dec (length b) @ []) = [oid, ''blob'', dec (length b)]"
  proof -
    have "split_ws (dec (length b) @ []) = [dec (length b)]"
      using split_ws_word[of "dec (length b)" "[]"] dg by auto
    moreover have "split_ws (''blob'' @ '' '' @ dec (length b) @ []) = ''blob'' # split_ws ('' '' @ dec (length b) @ [])"
      by (rule split_ws_word) (auto simp: sp char_class_defs)
    moreover have "split_ws (oid @ '' '' @ ''blob'' @ '' '' @ dec (length b) @ [])
        = oid # split_ws ('' '' @ ''blob'' @ '' '' @ dec (length b) @ [])"
      by (rule split_ws_word) (use oid sp in auto)
    ultimately show ?thesis using split_ws_space[OF sp] by simp
  qed
  then have h: "split_ws ?h = [oid, ''blob'', dec (length b)]" by simp
  have IH: "read_batch (map fst es) (batch_text es) = Inr (tree_files es)" using Cons by simp
  have "NL \<in> set (batch_text (e # es))" unfolding tx by simp
  then show ?case
    unfolding tx using tw h IH
    by (simp add: e Let_def int_field_dec tree_files_def del: append.simps) (simp add: tree_files_def)
qed (simp add: batch_text_def tree_files_def)

lemma committed_files_roundtrip_aux:
  assumes "git_serves repo ref tree"
  shows "closure_committed_files repo ref = Inr (tree_files tree)"
proof (cases "tree = []")
  case True
  then show ?thesis using assms
    by (simp add: git_serves_def closure_committed_files_def parse_listing_text tree_files_def)
next
  case False
  have ok: "tree_ok tree" using assms by (simp add: git_serves_def)
  then have "\<forall>(path, oid, body)\<in>set tree. oid \<noteq> [] \<and> (\<forall>c\<in>set oid. is_hex c)" by (auto simp: tree_ok_def)
  from read_batch_text[OF this] have "read_batch (map (\<lambda>x. snd (case x of (p, oid, b) \<Rightarrow> (oid, p))) tree) (batch_text tree)
      = Inr (tree_files tree)"
    by (simp add: case_prod_unfold)
  then show ?thesis using assms False
    by (simp add: git_serves_def closure_committed_files_def parse_listing_text[OF ok] comp_def)
qed


definition tree_digests :: "tree \<Rightarrow> (string \<times> string) list" where
  "tree_digests tree = map (\<lambda>(p, oid, b). (p, sha256 b)) tree"

lemma base_blobs_serves:
  assumes "git_serves repo ref tree"
  shows "base_blobs repo ref = Inr (tree_digests tree)"
proof -
  have eq: "map (\<lambda>(p, b). (p, sha256 b)) (tree_files tree) = tree_digests tree"
    by (simp add: tree_files_def tree_digests_def comp_def case_prod_unfold)
  have "distinct (map fst (tree_digests tree))"
    using assms by (simp add: git_serves_def tree_ok_def tree_digests_def comp_def case_prod_unfold)
  then show ?thesis by (simp add: base_blobs_def committed_files_roundtrip_aux[OF assms] eq dict_of_distinct)
qed

text \<open>The two runs of the check, spelled out for trees that git serves.\<close>

definition survivors_of :: "tree \<Rightarrow> (string \<times> string) list \<Rightarrow> string list" where
  "survivors_of head gone =
     concat (map (file_survivors (wanted_of gone) (map (\<lambda>(rel, sha). (rel, lower sha)) gone) (tree_digests head))
       (tree_files head))"

lemma closure_check_serves:
  assumes "git_serves repo base b" "git_serves repo ''HEAD'' h" "rev_ok repo base"
  defines "moved \<equiv> moved_of (tree_digests b) (tree_digests h)"
  defines "gone \<equiv> filter (\<lambda>(p, s). p \<notin> fst ` set moved) (superseded_of (tree_digests b) (tree_digests h))"
  shows "closure_check repo base = Inr (if gone \<noteq> [] then survivors_of h gone else [], map moved_note (sort_key fst moved))"
  using assms(3)
  by (simp add: closure_check_def moved_content_def superseded_content_def base_blobs_serves[OF assms(1)]
      base_blobs_serves[OF assms(2)] surviving_occurrences_def committed_files_roundtrip_aux[OF assms(2)]
      survivors_of_def moved_def gone_def Let_def)

lemma closure_zero:
  "fst (closure_main repo base) = 0 \<longleftrightarrow> closure_check repo base = Inr ([], [])"
  by (auto simp: closure_main_def Let_def split: sum.splits py_error.splits if_splits)

lemma wanted_key: "(p, sha) \<in> set gone \<Longrightarrow> \<exists>owner. (lower sha, owner) \<in> set (wanted_of gone)"
proof -
  assume "(p, sha) \<in> set gone"
  then have "lower sha \<in> fst ` set (wanted_of gone)"
    unfolding wanted_of_def keys_dict_of by force
  then show ?thesis by auto
qed



section \<open>What an exemption rests on\<close>

text \<open>The invariant of the scanner: recorded spans and stacked positions point at the right braces of
  the text read so far.\<close>

definition span_inv :: "str \<Rightarrow> nat \<Rightarrow> span_state \<Rightarrow> bool" where
  "span_inv body n st \<longleftrightarrow>
     (\<forall>(i, j)\<in>set (sp_spans st). i < j \<and> j < n \<and> body ! i = CHR ''{'' \<and> body ! j = CHR ''}'') \<and>
     (\<forall>i\<in>set (sp_stack st). i < n \<and> body ! i = CHR ''{'')"

lemma span_inv_step:
  assumes "span_inv body n st" "n < length body"
  shows "span_inv body (Suc n) (span_step st (n, body ! n))"
  using assms
  by (cases "sp_stack st") (auto simp: span_inv_def span_step_def less_Suc_eq)

lemma span_inv_fold:
  "span_inv body n st \<Longrightarrow> drop n body = rest \<Longrightarrow>
     span_inv body (n + length rest) (foldl span_step st (enumerate_from n rest))"
proof (induction rest arbitrary: n st)
  case (Cons c cs)
  then have n: "n < length body" "body ! n = c" "drop (Suc n) body = cs"
    by (metis drop_all leI list.distinct(1), metis nth_via_drop, metis drop_Suc list.sel(3) tl_drop)
  from span_inv_step[OF Cons.prems(1) n(1)] Cons.IH[OF _ n(3)] n(2) show ?case by simp
qed simp

lemma object_spans_sound:
  "(i, j) \<in> set (object_spans body) \<Longrightarrow> i < j \<and> j < length body \<and> body ! i = CHR ''{'' \<and> body ! j = CHR ''}''"
  using span_inv_fold[of body 0 "\<lparr>sp_spans = [], sp_stack = [], sp_in_string = False, sp_escaped = False\<rparr>" body]
  by (auto simp: object_spans_def span_inv_def)

lemma lower_slice: "lower (slice i j s) = slice i j (lower s)"
  by (simp add: slice_def lower_def take_map drop_map)

text \<open>C18: an exemption is earned by structure. An excused offset lies inside an object of a file that
  parses; the object parses, is bound to a key whose decoded text names a committed file with a
  superseded digest, carries that file's current digest as a string value, and at the offset stands
  the superseded digest itself.\<close>

theorem excused_sound:
  assumes "ofs \<in> set (excused_spans rel body at_head old_of)"
  shows "json_loads body \<noteq> None \<and>
    (\<exists>i j raw_key key named prior current rec.
       body ! i = CHR ''{'' \<and> body ! j = CHR ''}'' \<and> i \<le> ofs \<and> ofs \<le> j \<and> j < length body \<and>
       key_naming body i = Some raw_key \<and> json_loads (DQUOTE # raw_key @ [DQUOTE]) = Some (JStr key) \<and>
       resolve_name rel key at_head = Some named \<and> map_of old_of named = Some prior \<and>
       map_of at_head named = Some current \<and> json_loads (slice i (j + 1) body) = Some rec \<and>
       lower current \<in> lower ` set (string_values rec) \<and>
       prefix (lower prior) (drop ofs (lower body)))"
proof -
  from assms obtain i j where ij: "json_loads body \<noteq> None" "(i, j) \<in> set (object_spans body)"
      "ofs \<in> set (excused_by rel body at_head old_of (i, j))"
    by (auto simp: excused_spans_def split: if_splits)
  from ij(3) obtain raw_key where raw: "key_naming body i = Some raw_key"
    by (cases "key_naming body i") (auto simp: excused_by_def)
  from ij(3) raw obtain v where v: "json_loads (DQUOTE # raw_key @ [DQUOTE]) = Some v"
    by (cases "json_loads (DQUOTE # raw_key @ [DQUOTE])") (auto simp: excused_by_def)
  from ij(3) raw v obtain key where key: "v = JStr key"
    by (cases v) (auto simp: excused_by_def)
  from ij(3) raw v key obtain named where named: "resolve_name rel key at_head = Some named"
    by (cases "resolve_name rel key at_head") (auto simp: excused_by_def)
  from ij(3) raw v key named obtain prior where prior: "map_of old_of named = Some prior"
    by (cases "map_of old_of named") (auto simp: excused_by_def)
  from ij(3) raw v key named prior obtain rec where rec: "json_loads (slice i (j + 1) body) = Some rec"
    by (cases "json_loads (slice i (j + 1) body)") (auto simp: excused_by_def Let_def)
  from ij(3) raw v key named prior rec obtain k where
    k: "lower (the (map_of at_head named)) \<in> lower ` set (string_values rec)"
      "ofs = i + k" "k \<in> set (occurrences (lower prior) (lower (slice i (j + 1) body)))"
    by (auto simp: excused_by_def Let_def split: if_splits)
  note h = raw v[unfolded key] named prior rec k
  from h(3) obtain current where cur: "map_of at_head named = Some current"
    by (auto simp: resolve_name_def Let_def split: if_splits)
  from object_spans_sound[OF ij(2)] have b: "i < j" "j < length body" "body ! i = CHR ''{''" "body ! j = CHR ''}''"
    by blast+
  from occurrences_sound[OF h(8)] have k: "k < length (slice i (j + 1) body)"
      "prefix (lower prior) (drop k (slice i (j + 1) (lower body)))"
    by (simp_all add: lower_slice[symmetric]) (simp add: lower_def)
  have "drop k (slice i (j + 1) (lower body)) = take (j + 1 - i - k) (drop (i + k) (lower body))"
    by (simp add: slice_def drop_take add.commute)
  then have "prefix (lower prior) (drop ofs (lower body))"
    using k(2) h(7) by (metis prefix_order.trans take_is_prefix)
  moreover have "i \<le> ofs" "ofs \<le> j" using k(1) h(7) b by (simp_all add: slice_def)
  moreover have "lower current \<in> lower ` set (string_values rec)" using h(6) cur by simp
  ultimately show ?thesis using ij(1) h(1-5) b cur by blast
qed

section \<open>Witnesses\<close>

text \<open>A repository that serves two trees with different object names.\<close>

definition demo_git :: "tree \<Rightarrow> tree \<Rightarrow> git_repo" where
  "demo_git base head =
     \<lparr>rev_ok = (\<lambda>r. r = ''main''),
      ls_tree_z = (\<lambda>r. if r = ''main'' then Some (listing_text base)
                      else if r = ''HEAD'' then Some (listing_text head) else None),
      cat_file = (\<lambda>i. if i = batch_input (map (\<lambda>(p, oid, b). (oid, p)) base) then Some (batch_text base)
                     else if i = batch_input (map (\<lambda>(p, oid, b). (oid, p)) head) then Some (batch_text head) else None)\<rparr>"

lemma demo_git_serves:
  assumes "tree_ok base" "tree_ok head"
    and "batch_input (map (\<lambda>(p, oid, b). (oid, p)) base) \<noteq> batch_input (map (\<lambda>(p, oid, b). (oid, p)) head)"
  shows "git_serves (demo_git base head) ''main'' base" "git_serves (demo_git base head) ''HEAD'' head"
  using assms by (simp_all add: git_serves_def demo_git_def)

definition demo_base :: tree where
  "demo_base = [(''a.txt'', ''01'', ''abc'')]"

definition demo_renamed :: tree where
  "demo_renamed = [(''b.txt'', ''02'', ''abc'')]"

lemma demo_trees_ok: "tree_ok demo_base" "tree_ok demo_renamed" "tree_ok [(''b.txt'', ''02'', [])]"
  by (simp_all add: tree_ok_def demo_base_def demo_renamed_def char_class_defs)



definition demo_record :: str where
  "demo_record =
     ''{'' @ [DQUOTE] @ ''n.md'' @ [DQUOTE] @ '':{'' @ [DQUOTE] @ ''o'' @ [DQUOTE] @ '':'' @ [DQUOTE] @ ''aa1'' @ [DQUOTE]
     @ '','' @ [DQUOTE] @ ''n'' @ [DQUOTE] @ '':'' @ [DQUOTE] @ ''CC2'' @ [DQUOTE] @ ''}}''"

lemma demo_record_excused:
  "14 \<in> set (excused_spans ''p/receipt.json'' demo_record [(''p/n.md'', ''cc2'')] [(''p/n.md'', ''aa1'')])"
proof -
  have spans: "object_spans demo_record = [(8, 28), (0, 29)]"
    by (simp add: demo_record_def object_spans_def span_step_def)
  have loads: "json_loads demo_record \<noteq> None" by code_simp
  have key: "key_naming demo_record 8 = Some ''n.md''" by code_simp
  have dec: "json_loads (DQUOTE # ''n.md'' @ [DQUOTE]) = Some (JStr ''n.md'')" by code_simp
  have nm: "resolve_name ''p/receipt.json'' ''n.md'' [(''p/n.md'', ''cc2'')] = Some ''p/n.md''" by code_simp
  have rec: "json_loads (slice 8 (28 + 1) demo_record) = Some (JObj [(''o'', JStr ''aa1''), (''n'', JStr ''CC2'')])"
    by code_simp
  have low: "lower ''cc2'' = ''cc2''" "lower ''CC2'' = ''cc2''" "lower ''aa1'' = ''aa1''" by code_simp+
  have occ: "occurrences ''aa1'' (lower (slice 8 (28 + 1) demo_record)) = [6]" by code_simp
  have "excused_by ''p/receipt.json'' demo_record [(''p/n.md'', ''cc2'')] [(''p/n.md'', ''aa1'')] (8, 28) = [14]"
    unfolding excused_by_def prod.case key option.case dec json.case nm Let_def rec
    by (simp add: low occ[simplified])
  then show ?thesis using loads by (simp add: excused_spans_def spans)
qed

theorem excused_sound_witness:
  "json_loads demo_record \<noteq> None \<and> prefix ''aa1'' (drop 14 (lower demo_record))"
proof -
  have low: "lower ''aa1'' = ''aa1''" by code_simp
  from excused_sound[OF demo_record_excused] obtain prior named where
    "json_loads demo_record \<noteq> None" "map_of [(''p/n.md'', ''aa1'')] named = Some prior"
    "prefix (lower prior) (drop 14 (lower demo_record))" by blast
  then show ?thesis using low by (auto split: if_splits)
qed

end
