(* ===== verification/DigestWitnesses.thy ===== *)
theory DigestWitnesses
  imports Sha256Vectors ScrubClosure
begin


end
