(* ===== verification/Passivity.thy ===== *)
theory Passivity
  imports Files
begin

text \<open>
  The passivity checks the artifact packages ship (\<^verbatim>\<open>bridge_passivity_check.py\<close> of ct_fifo, of the
  two preg-entry packages, which carry the same file, and of the vreg-entry package): a debug copy
  of a Verilog module must be the exact module with observation ports added. A script strips what
  it takes for instrumentation from the debug copy and compares the rest with the exact text.

  The three line rules and comparisons are modelled one by one; the loop over the two pairs, the
  self-test on a tampered copy and the exit code are the same text in all of them. The unified
  diff of a failure is kept as the two lists of lines \<open>difflib\<close> is given. An exception (a missing
  or undecodable file), which nothing catches, ends the run with code 1.
\<close>

section \<open>What the scripts share\<close>

datatype pass_msg =
    PassivePair string
  | NonPassive string "str list" "str list"
  | SelftestNoTarget
  | SelftestAccepted
  | SelftestRejected "pass_msg list"

type_synonym pair_verdict = "(str list \<times> str list) option"

definition strip_with :: "(str \<Rightarrow> str option) \<Rightarrow> str \<Rightarrow> str" where
  "strip_with rule text = join [NL] (List.map_filter rule (splitlines text)) @ [NL]"

definition compare_texts :: "str \<Rightarrow> str \<Rightarrow> pair_verdict" where
  "compare_texts exact debug =
     (if exact = debug then None else Some (splitlines exact, splitlines debug))"

fun run_pairs :: "(string \<times> pair_verdict res) list \<Rightarrow> bool \<Rightarrow> pass_msg list \<Rightarrow> (bool \<times> pass_msg list) res" where
  "run_pairs [] ok msgs = Inr (ok, msgs)"
| "run_pairs ((label, r) # rest) ok msgs =
     bind_res r (\<lambda>verdict. case verdict of
        None \<Rightarrow> run_pairs rest ok (msgs @ [PassivePair label])
      | Some (e, d) \<Rightarrow> run_pairs rest False (msgs @ [NonPassive label e d]))"

text \<open>The temporary directory: the regular files directly under the root.\<close>

definition copied_files :: "node \<Rightarrow> path \<Rightarrow> (string \<times> node) list" where
  "copied_files fs base =
     filter (\<lambda>(k, n). case n of File _ \<Rightarrow> True | Dir _ \<Rightarrow> False) (list_dir fs base)"

definition selftest_with ::
  "(node \<Rightarrow> path \<Rightarrow> (bool \<times> pass_msg list) res) \<Rightarrow> string \<Rightarrow> str \<Rightarrow> str \<Rightarrow> node \<Rightarrow> path
     \<Rightarrow> (bool \<times> pass_msg) res" where
  "selftest_with run target original edited fs base =
     (let tmp = copied_files fs base in
      bind_res (read_text_res (Dir tmp) [target]) (\<lambda>text.
        let tampered = replace1 text original edited in
        if tampered = text then Inr (False, SelftestNoTarget)
        else bind_res (run (Dir (dict_set tmp target (File tampered))) []) (\<lambda>(ok, msgs).
          Inr (if ok then (False, SelftestAccepted) else (True, SelftestRejected msgs)))))"

definition passivity_main ::
  "(bool \<times> pass_msg list) res \<Rightarrow> (bool \<times> pass_msg) res \<Rightarrow> bool \<Rightarrow> nat \<times> pass_msg list" where
  "passivity_main checks self selftest =
     (case checks of Inl e \<Rightarrow> (1, [])
      | Inr (ok, msgs) \<Rightarrow>
          if \<not> selftest then (if ok then 0 else 2, msgs)
          else (case self of Inl e \<Rightarrow> (1, [])
            | Inr (self_ok, m) \<Rightarrow> (if ok \<and> self_ok then 0 else 2, msgs @ [m])))"

section \<open>ct_fifo\<close>

definition ct_DEBUG_PORTS :: "string list" where
  "ct_DEBUG_PORTS =
     [''dbg_create_ptr'', ''dbg_pop_ptr'', ''dbg_entry_vld'', ''dbg_entry_cont0'', ''dbg_entry_cont1'']"

definition ct_strip_line :: "string \<Rightarrow> string \<Rightarrow> str \<Rightarrow> str option" where
  "ct_strip_line debug_module exact_module line =
     (let stripped = strip line in
      if startswith stripped (''module '' @ debug_module @ ''('')
      then Some (replace1 line debug_module exact_module)
      else if list_ex (\<lambda>port. stripped = port @ '','' \<or> stripped = port) ct_DEBUG_PORTS then None
      else if startswith stripped ''output '' \<and> list_ex (contains stripped) ct_DEBUG_PORTS then None
      else if startswith stripped ''assign dbg_'' then None
      else if stripped = ''fifo_icg_en,'' then Some (replace_all line ''fifo_icg_en,'' ''fifo_icg_en'')
      else Some line)"

definition ct_strip_debug_lines :: "str \<Rightarrow> string \<Rightarrow> string \<Rightarrow> str" where
  "ct_strip_debug_lines text debug_module exact_module =
     strip_with (ct_strip_line debug_module exact_module) text"

definition ct_check_pair :: "node \<Rightarrow> path \<Rightarrow> path \<Rightarrow> string \<Rightarrow> string \<Rightarrow> pair_verdict res" where
  "ct_check_pair fs exact debug debug_module exact_module =
     bind_res (read_text_res fs exact) (\<lambda>exact_text.
     bind_res (read_text_res fs debug) (\<lambda>debug_text.
       Inr (compare_texts exact_text (ct_strip_debug_lines debug_text debug_module exact_module))))"

definition ct_run_checks :: "node \<Rightarrow> path \<Rightarrow> (bool \<times> pass_msg list) res" where
  "ct_run_checks fs base =
     run_pairs
       [(''gold'', ct_check_pair fs (base @ [''ct_fifo_gold.v'']) (base @ [''ct_fifo_gold_dbg.v''])
           ''ct_fifo_gold_dbg'' ''ct_fifo''),
        (''gate'', ct_check_pair fs (base @ [''ct_fifo_gate_candidate.v'']) (base @ [''ct_fifo_gate_dbg.v''])
           ''ct_fifo_gate_dbg'' ''ct_fifo_gate'')] True []"

definition ct_tamper_from :: str where
  "ct_tamper_from = ''assign fifo_not_empty = |fifo_entry_vld[DEPTH-1:0];''"

definition ct_tamper_to :: str where
  "ct_tamper_to = ''assign fifo_not_empty = &fifo_entry_vld[DEPTH-1:0];''"

definition ct_selftest :: "node \<Rightarrow> path \<Rightarrow> (bool \<times> pass_msg) res" where
  "ct_selftest = selftest_with ct_run_checks ''ct_fifo_gold_dbg.v'' ct_tamper_from ct_tamper_to"

definition ct_main :: "node \<Rightarrow> path \<Rightarrow> bool \<Rightarrow> nat \<times> pass_msg list" where
  "ct_main fs base selftest = passivity_main (ct_run_checks fs base) (ct_selftest fs base) selftest"

section \<open>preg entry\<close>

definition preg_DEBUG_PORTS :: "string list" where
  "preg_DEBUG_PORTS =
     [''dbg_lifecycle_cur_state'', ''dbg_iid'', ''dbg_dst_reg'', ''dbg_rel_preg'', ''dbg_wb_cur_state'',
      ''dbg_retire_inst0_iid_match'', ''dbg_retire_inst1_iid_match'', ''dbg_retire_inst2_iid_match'']"

definition preg_strip_line :: "str \<Rightarrow> str option" where
  "preg_strip_line line =
     (let stripped = strip line in
      if list_ex (\<lambda>port. stripped = port @ '','' \<or> stripped = port) preg_DEBUG_PORTS then None
      else if startswith stripped ''output '' \<and> list_ex (contains stripped) preg_DEBUG_PORTS then None
      else if startswith stripped ''assign dbg_'' then None
      else if stripped = ''x_wb_vld,'' then Some (replace_all line ''x_wb_vld,'' ''x_wb_vld'')
      else Some line)"

definition preg_strip_debug_lines :: "str \<Rightarrow> str" where
  "preg_strip_debug_lines = strip_with preg_strip_line"

definition preg_canonical :: "str \<Rightarrow> str" where
  "preg_canonical text = rstrip text @ [NL]"

definition preg_check_pair :: "node \<Rightarrow> path \<Rightarrow> path \<Rightarrow> pair_verdict res" where
  "preg_check_pair fs exact debug =
     bind_res (read_text_res fs exact) (\<lambda>exact_text.
     bind_res (read_text_res fs debug) (\<lambda>debug_text.
       Inr (compare_texts (preg_canonical exact_text)
              (preg_canonical (preg_strip_debug_lines debug_text)))))"

definition preg_run_checks :: "node \<Rightarrow> path \<Rightarrow> (bool \<times> pass_msg list) res" where
  "preg_run_checks fs base =
     run_pairs
       [(''gold'', preg_check_pair fs (base @ [''ct_rtu_pst_preg_entry_gold.v''])
           (base @ [''ct_rtu_pst_preg_entry_gold_dbg.v''])),
        (''gate'', preg_check_pair fs (base @ [''ct_rtu_pst_preg_entry_gate_candidate.v''])
           (base @ [''ct_rtu_pst_preg_entry_gate_dbg.v'']))] True []"

definition preg_selftest :: "node \<Rightarrow> path \<Rightarrow> (bool \<times> pass_msg) res" where
  "preg_selftest =
     selftest_with preg_run_checks ''ct_rtu_pst_preg_entry_gold_dbg.v''
       ''assign x_cur_state_dealloc          = lifecycle_cur_state_dealloc;''
       ''assign x_cur_state_dealloc          = ~lifecycle_cur_state_dealloc;''"

definition preg_main :: "node \<Rightarrow> path \<Rightarrow> bool \<Rightarrow> nat \<times> pass_msg list" where
  "preg_main fs base selftest = passivity_main (preg_run_checks fs base) (preg_selftest fs base) selftest"

section \<open>vreg entry\<close>

definition vreg_DEBUG_PORTS :: "string list" where
  "vreg_DEBUG_PORTS =
     [''dbg_lifecycle_cur_state'', ''dbg_iid'', ''dbg_dstv_reg'', ''dbg_rel_vreg'', ''dbg_wb_cur_state'',
      ''dbg_retire_inst0_iid_match'', ''dbg_retire_inst1_iid_match'', ''dbg_retire_inst2_iid_match'']"

definition vreg_strip_line :: "str \<Rightarrow> str option" where
  "vreg_strip_line line =
     (let stripped = strip line in
      if list_ex (\<lambda>port. stripped = port @ '','' \<or> stripped = port) vreg_DEBUG_PORTS then None
      else if list_ex (\<lambda>port. stripped = port @ '');'') vreg_DEBUG_PORTS then Some '');''
      else if startswith stripped ''output '' \<and> list_ex (contains stripped) vreg_DEBUG_PORTS then None
      else if startswith stripped ''assign dbg_'' then None
      else if stripped = ''x_wb_vld,'' then Some (replace_all line ''x_wb_vld,'' ''x_wb_vld'')
      else Some line)"

definition vreg_strip_debug_lines :: "str \<Rightarrow> str" where
  "vreg_strip_debug_lines = strip_with vreg_strip_line"

definition vreg_canonical :: "str \<Rightarrow> str" where
  "vreg_canonical text =
     join [NL] (map rstrip (filter (\<lambda>line. strip line \<noteq> []) (splitlines text))) @ [NL]"

definition vreg_check_pair :: "node \<Rightarrow> path \<Rightarrow> path \<Rightarrow> pair_verdict res" where
  "vreg_check_pair fs exact debug =
     bind_res (read_text_res fs exact) (\<lambda>exact_text.
     bind_res (read_text_res fs debug) (\<lambda>debug_text.
       Inr (compare_texts (vreg_canonical exact_text)
              (vreg_canonical (vreg_strip_debug_lines debug_text)))))"

definition vreg_run_checks :: "node \<Rightarrow> path \<Rightarrow> (bool \<times> pass_msg list) res" where
  "vreg_run_checks fs base =
     run_pairs
       [(''gold'', vreg_check_pair fs (base @ [''ct_rtu_pst_vreg_entry_gold.v''])
           (base @ [''ct_rtu_pst_vreg_entry_gold_dbg.v''])),
        (''gate'', vreg_check_pair fs (base @ [''ct_rtu_pst_vreg_entry_gate_candidate.v''])
           (base @ [''ct_rtu_pst_vreg_entry_gate_dbg.v'']))] True []"

definition vreg_tamper_tail :: str where
  "vreg_tamper_tail =
     ''lifecycle_cur_state_alloc'' @ [NL] @ replicate 38 CHR '' '' @ ''|| lifecycle_cur_state_release;''"

definition vreg_selftest :: "node \<Rightarrow> path \<Rightarrow> (bool \<times> pass_msg) res" where
  "vreg_selftest =
     selftest_with vreg_run_checks ''ct_rtu_pst_vreg_entry_gold_dbg.v''
       (''assign x_cur_state_alloc_release    = '' @ vreg_tamper_tail)
       (''assign x_cur_state_alloc_release    = ~'' @ vreg_tamper_tail)"

definition vreg_main :: "node \<Rightarrow> path \<Rightarrow> bool \<Rightarrow> nat \<times> pass_msg list" where
  "vreg_main fs base selftest = passivity_main (vreg_run_checks fs base) (vreg_selftest fs base) selftest"

section \<open>Specification: a copy with observation ports\<close>

text \<open>
  \<open>observes silent edit exact debug\<close>: the debug lines are the exact lines, each as \<open>edit\<close> allows it
  to differ, with lines put in that \<open>silent\<close> takes for instrumentation.
\<close>

inductive observes :: "(str \<Rightarrow> bool) \<Rightarrow> (str \<Rightarrow> str \<Rightarrow> bool) \<Rightarrow> str list \<Rightarrow> str list \<Rightarrow> bool"
  for silent edit where
  observes_Nil: "observes silent edit [] []"
| observes_extra: "silent d \<Longrightarrow> observes silent edit ls ds \<Longrightarrow> observes silent edit ls (d # ds)"
| observes_line: "edit l d \<Longrightarrow> observes silent edit ls ds \<Longrightarrow> observes silent edit (l # ls) (d # ds)"

inductive_simps observes_Cons_debug: "observes silent edit ls (d # ds)"
inductive_simps observes_Nil_debug: "observes silent edit ls []"

definition instrumentation :: "string list \<Rightarrow> str \<Rightarrow> bool" where
  "instrumentation ports d \<longleftrightarrow>
     (\<exists>port\<in>set ports. strip d = port \<or> strip d = port @ '','') \<or>
     (\<exists>port\<in>set ports. startswith (strip d) ''output '' \<and> contains (strip d) port) \<or>
     startswith (strip d) ''assign dbg_''"

text \<open>\<open>d\<close> is the line \<open>l\<close>, the port \<open>name\<close> alone but for blanks, with a comma after it.\<close>

definition comma_added :: "string \<Rightarrow> str \<Rightarrow> str \<Rightarrow> bool" where
  "comma_added name l d \<longleftrightarrow>
     (\<exists>u v. (\<forall>c\<in>set (u @ v). is_space c) \<and> l = u @ name @ v \<and> d = u @ name @ '','' @ v)"

definition ct_edit :: "string \<Rightarrow> string \<Rightarrow> str \<Rightarrow> str \<Rightarrow> bool" where
  "ct_edit debug_module exact_module l d \<longleftrightarrow>
     l = d \<or> comma_added ''fifo_icg_en'' l d \<or>
     startswith (strip d) (''module '' @ debug_module @ ''('') \<and> l = replace1 d debug_module exact_module"

lemma observes_filter:
  assumes "\<And>d. rule d = None \<Longrightarrow> silent d" "\<And>d l. rule d = Some l \<Longrightarrow> edit l d"
  shows "observes silent edit (List.map_filter rule ds) ds"
  by (induction ds) (auto simp: List.map_filter_simps assms intro: observes.intros split: option.split)

lemma comma_replaced:
  assumes "strip d = name @ '',''" "name \<noteq> []" "\<not> is_space (hd name)"
  shows "comma_added name (replace_all d (name @ '','') name) d"
proof -
  define p where "p = name @ '',''"
  obtain u v where d: "d = u @ p @ v" and
    sp: "\<forall>c\<in>set u. is_space c" "\<forall>c\<in>set v. is_space c"
    using strip_split[of d] assms(1) p_def by metis
  have p: "p \<noteq> []" "hd p = hd name" using assms(2) by (simp_all add: p_def)
  have "\<forall>c\<in>set u. c \<noteq> hd p" "\<forall>c\<in>set v. c \<noteq> hd p" unfolding p(2) using sp assms(3) by auto
  then have "replace_all d p name = u @ name @ v"
    using p(1) by (simp add: d replace_all_append replace_all_here replace_all_none)
  moreover have "d = u @ name @ '','' @ v" by (simp add: d p_def)
  ultimately show ?thesis unfolding p_def comma_added_def using sp by auto
qed

lemma ct_strip_None: "ct_strip_line dm em d = None \<Longrightarrow> instrumentation ct_DEBUG_PORTS d"
  by (auto simp: ct_strip_line_def instrumentation_def Let_def list_ex_iff split: if_splits)

lemma ct_strip_Some:
  assumes "ct_strip_line dm em d = Some l"
  shows "ct_edit dm em l d"
proof -
  have "comma_added ''fifo_icg_en'' (replace_all d ''fifo_icg_en,'' ''fifo_icg_en'') d"
    if "strip d = ''fifo_icg_en,''"
    using comma_replaced[of d "''fifo_icg_en''"] that by (simp add: char_class_defs)
  then show ?thesis
    using assms by (simp add: ct_strip_line_def ct_edit_def Let_def split: if_split_asm)
qed

lemma compare_None [simp]: "compare_texts e d = None \<longleftrightarrow> e = d"
  by (simp add: compare_texts_def)

lemma run_pairs_ok:
  "(\<exists>m. run_pairs ps ok msgs = Inr (True, m)) \<longleftrightarrow> ok \<and> (\<forall>(label, r)\<in>set ps. r = Inr None)"
proof (induction ps ok msgs rule: run_pairs.induct)
  case (2 label r rest ok msgs)
  then show ?case by (cases r) (auto split: option.splits prod.splits)
qed simp

declare run_pairs.simps [simp del]

lemma passivity_main_zero:
  "passivity_main checks self selftest = (0, msgs) \<Longrightarrow> \<exists>m. checks = Inr (True, m)"
  by (cases checks) (auto simp: passivity_main_def split: if_splits sum.splits)

lemma main_plain_zero: "fst (passivity_main checks self False) = 0 \<longleftrightarrow> (\<exists>m. checks = Inr (True, m))"
  by (cases checks) (auto simp: passivity_main_def split: if_splits)

lemma check_pair_None:
  "bind_res (read_text_res fs a) (\<lambda>x. bind_res (read_text_res fs b) (\<lambda>y. Inr (compare_texts (f x) (g y)))) = Inr None
     \<longleftrightarrow> (\<exists>x y. read_text fs a = Some x \<and> read_text fs b = Some y \<and> f x = g y)"
  by (auto simp: bind_res_eq_Inr)

lemma ct_pair_None:
  "ct_check_pair fs a b dm em = Inr None \<longleftrightarrow>
     (\<exists>e d. read_text fs a = Some e \<and> read_text fs b = Some d \<and> e = ct_strip_debug_lines d dm em)"
  unfolding ct_check_pair_def by (rule check_pair_None)

text \<open>The two pairs of ct_fifo: exact file, debug file, debug module, exact module.\<close>

definition ct_pairs :: "(string \<times> string \<times> string \<times> string) list" where
  "ct_pairs =
     [(''ct_fifo_gold.v'', ''ct_fifo_gold_dbg.v'', ''ct_fifo_gold_dbg'', ''ct_fifo''),
      (''ct_fifo_gate_candidate.v'', ''ct_fifo_gate_dbg.v'', ''ct_fifo_gate_dbg'', ''ct_fifo_gate'')]"

lemma ct_run_ok:
  "(\<exists>m. ct_run_checks fs base = Inr (True, m)) \<longleftrightarrow>
     (\<forall>(exact, debug, dm, em)\<in>set ct_pairs. \<exists>e d.
        read_text fs (base @ [exact]) = Some e \<and> read_text fs (base @ [debug]) = Some d \<and>
        e = ct_strip_debug_lines d dm em)"
  by (simp add: ct_run_checks_def run_pairs_ok ct_pairs_def ct_pair_None)

lemma map_filter_append: "List.map_filter f (xs @ ys) = List.map_filter f xs @ List.map_filter f ys"
  by (simp add: List.map_filter_def)

lemma strip_keeps_prefix:
  assumes "p \<noteq> []" "\<not> is_space (hd p)" "\<not> is_space (last p)"
  shows "prefix p (strip (p @ s))"
proof -
  have l: "lstrip (p @ s) = p @ s" using assms by (cases p) (simp_all add: lstrip_def)
  obtain q x where p: "p = q @ [x]" using assms(1) by (cases p rule: rev_cases) auto
  have "rstrip (p @ s) = p @ rstrip s"
  proof (cases "\<forall>c\<in>set s. is_space c")
    case True
    then show ?thesis using assms(3)
      by (simp add: rstrip_def p dropWhile_append)
  next
    case False
    then show ?thesis by (auto simp: rstrip_def dropWhile_append)
  qed
  then show ?thesis by (simp add: strip_def l)
qed

lemma ct_strip_tap: "ct_strip_line dm em (''assign dbg_'' @ s) = None"
proof -
  have "prefix ''assign dbg_'' (strip (''assign dbg_'' @ s))"
    by (rule strip_keeps_prefix) (simp_all add: char_class_defs)
  then obtain t where "strip (''assign dbg_'' @ s) = ''assign dbg_'' @ t" by (auto simp: prefix_def)
  then show ?thesis by (simp add: ct_strip_line_def startswith_def Let_def)
qed

text \<open>The text lines of the vreg comparison.\<close>

definition content_lines :: "str list \<Rightarrow> str list" where
  "content_lines ls = map rstrip (filter (\<lambda>l. strip l \<noteq> []) ls)"

definition vreg_agrees :: "node \<Rightarrow> path \<Rightarrow> path \<Rightarrow> bool" where
  "vreg_agrees fs exact debug \<longleftrightarrow>
     (\<exists>e d. read_text fs exact = Some e \<and> read_text fs debug = Some d \<and>
        content_lines (splitlines e) = content_lines (List.map_filter vreg_strip_line (splitlines d)))"

lemma one_line_rstrip: "one_line l \<Longrightarrow> one_line (rstrip l)"
  by (auto simp: rstrip_def one_line_def dest: set_dropWhileD)

lemma join_content_inj:
  assumes "\<forall>l\<in>set ls. one_line l \<and> l \<noteq> []" "\<forall>l\<in>set ms. one_line l \<and> l \<noteq> []"
  shows "join [NL] ls @ [NL] = join [NL] ms @ [NL] \<longleftrightarrow> ls = ms"
proof (cases "ls = [] \<or> ms = []")
  case True
  have "join [NL] xs = [] \<Longrightarrow> \<forall>l\<in>set xs. l \<noteq> [] \<Longrightarrow> xs = []" for xs
    by (cases "([NL], xs)" rule: join.cases) auto
  from this[of ls] this[of ms] True assms show ?thesis by (metis append_same_eq join.simps(1))
next
  case False
  with assms unlines_inj[of ls ms] show ?thesis by (auto simp: join_unlines)
qed

lemma rstrip_Nil_strip: "rstrip l = [] \<Longrightarrow> strip l = []"
  by (auto simp: strip_Nil_iff rstrip_def dropWhile_eq_Nil_conv)

lemma vreg_canonical_eq:
  "vreg_canonical a = vreg_canonical b \<longleftrightarrow> content_lines (splitlines a) = content_lines (splitlines b)"
  unfolding vreg_canonical_def content_lines_def
  by (rule join_content_inj)
    (auto intro!: one_line_rstrip simp: splitlines_one_line dest: rstrip_Nil_strip)

lemma one_line_replace_all: "one_line l \<Longrightarrow> one_line q \<Longrightarrow> one_line (replace_all l p q)"
proof (induction l p q rule: replace_all.induct)
  case (1 s p q)
  show ?case
  proof (cases s)
    case (Cons c t)
    with 1 show ?thesis
      by (subst replace_all.simps) (auto simp: one_line_drop simp del: drop_Suc_Cons)
  qed (simp add: replace_all.simps)
qed

lemma vreg_strip_one_line: "one_line d \<Longrightarrow> vreg_strip_line d = Some l \<Longrightarrow> one_line l"
  by (auto simp: vreg_strip_line_def Let_def one_line_replace_all char_class_defs split: if_split_asm)

lemma content_lines_stripped:
  "content_lines (splitlines (vreg_strip_debug_lines d)) =
     content_lines (List.map_filter vreg_strip_line (splitlines d))"
proof -
  let ?ls = "List.map_filter vreg_strip_line (splitlines d)"
  have ls: "\<forall>l\<in>set ?ls. one_line l"
    by (auto simp: List.map_filter_def intro: vreg_strip_one_line splitlines_one_line)
  show ?thesis
  proof (cases "?ls = []")
    case True
    then show ?thesis
      by (simp add: vreg_strip_debug_lines_def strip_with_def content_lines_def splitlines_def linebreak_chars
          strip_Nil_iff)
  next
    case False
    with ls show ?thesis
      by (simp add: vreg_strip_debug_lines_def strip_with_def join_unlines splitlines_unlines)
  qed
qed

lemma vreg_pair_None:
  "vreg_check_pair fs a b = Inr None \<longleftrightarrow>
     (\<exists>e d. read_text fs a = Some e \<and> read_text fs b = Some d \<and>
        content_lines (splitlines e) = content_lines (List.map_filter vreg_strip_line (splitlines d)))"
  unfolding vreg_check_pair_def check_pair_None vreg_canonical_eq content_lines_stripped by (rule refl)

subsection \<open>The self-test\<close>

lemma run_pairs_total:
  "\<forall>(label, r)\<in>set ps. \<exists>v. r = Inr v \<Longrightarrow> \<exists>ok' m. run_pairs ps ok msgs = Inr (ok', m)"
proof (induction ps ok msgs rule: run_pairs.induct)
  case (2 label r rest ok msgs)
  then show ?case by (cases r) (auto simp: run_pairs.simps split: option.split)
qed (simp add: run_pairs.simps)

lemma ct_run_total:
  assumes "\<forall>(exact, debug, dm, em)\<in>set ct_pairs. \<exists>e d.
    read_text fs (base @ [exact]) = Some e \<and> read_text fs (base @ [debug]) = Some d"
  shows "\<exists>ok m. ct_run_checks fs base = Inr (ok, m)"
  using assms unfolding ct_run_checks_def ct_pairs_def
  by (intro run_pairs_total) (auto simp: ct_check_pair_def read_text_res_def)

lemma replace1_skip_line:
  "NL \<notin> set p \<Longrightarrow> p \<noteq> [] \<Longrightarrow> \<not> contains l p \<Longrightarrow>
     replace1 (l @ NL # s) p q = l @ NL # replace1 s p q"
proof (induction l)
  case Nil
  then have "\<not> prefix p (NL # s)" by (cases p) auto
  then show ?case by simp
next
  case (Cons c l)
  have "\<not> prefix p ((c # l) @ NL # s)"
  proof
    assume "prefix p ((c # l) @ NL # s)"
    then have "prefix p (c # l) \<or> (\<exists>z. p = (c # l) @ NL # z)"
      by (auto simp: prefix_append prefix_Cons)
    then show False using Cons.prems startswith_contains[of "c # l" p] by (auto simp: startswith_def)
  qed
  moreover have "\<not> contains l p" using Cons.prems(3) by (auto simp: contains_def sublist_Cons_right)
  ultimately show ?case using Cons by simp
qed

lemma replace1_skip_lines:
  "NL \<notin> set p \<Longrightarrow> p \<noteq> [] \<Longrightarrow> \<forall>d\<in>set ds. \<not> contains d p \<Longrightarrow>
     replace1 (unlines ds @ s) p q = unlines ds @ replace1 s p q"
  by (induction ds) (auto simp: replace1_skip_line)

lemma replace1_skip_chars:
  "p \<noteq> [] \<Longrightarrow> hd p \<notin> set u \<Longrightarrow> replace1 (u @ p @ s) p q = u @ q @ s"
proof (induction u)
  case Nil
  then show ?case by (cases p) auto
next
  case (Cons c u)
  then have "\<not> prefix p (c # u @ p @ s)" by (cases p) auto
  with Cons show ?case by simp
qed

lemma strip_blanks:
  assumes "\<forall>c\<in>set (u @ v). is_space c" "p \<noteq> []" "\<not> is_space (hd p)" "\<not> is_space (last p)"
  shows "strip (u @ p @ v) = p"
proof -
  have "lstrip (u @ p @ v) = p @ v"
    using assms by (cases p) (auto simp: lstrip_def dropWhile_append)
  moreover have "rstrip (p @ v) = p"
    using assms by (cases p rule: rev_cases) (auto simp: rstrip_def dropWhile_append)
  ultimately show ?thesis by (simp add: strip_def)
qed

lemma copied_read:
  assumes "wf_node fs" "''..'' \<notin> set base" "n \<noteq> ''..''"
  shows "read_text (Dir (copied_files fs base)) [n] = read_text fs (base @ [n])"
proof -
  have w: "walk fs [] (base @ [n]) = lookup fs (base @ [n])" "walk fs [] base = lookup fs base"
    "walk (Dir (copied_files fs base)) [] [n] = lookup (Dir (copied_files fs base)) [n]"
    using assms(2,3) walk_plain[of "base @ [n]" fs "[]"] walk_plain[of base fs "[]"]
      walk_plain[of "[n]" "Dir (copied_files fs base)" "[]"] by auto
  show ?thesis
  proof (cases "lookup fs base")
    case None
    then show ?thesis
      by (simp add: read_text_def read_bytes_def w lookup_append copied_files_def list_dir_def)
  next
    case (Some m)
    show ?thesis
    proof (cases m)
      case (File b)
      with Some show ?thesis
        by (simp add: read_text_def read_bytes_def w lookup_append copied_files_def list_dir_def)
    next
      case (Dir es)
      have d: "distinct (map fst es)" using wf_node_lookup[OF assms(1) Some] Dir by simp
      let ?P = "\<lambda>(k::string, n). case n of File _ \<Rightarrow> True | Dir _ \<Rightarrow> False"
      have "map_of (filter ?P es) n = (case map_of es n of Some (File b) \<Rightarrow> Some (File b) | _ \<Rightarrow> None)"
        using d by (induction es) (auto split: node.splits option.splits dest!: map_of_SomeD intro: rev_image_eqI)
      then show ?thesis using Some Dir assms(3)
        by (auto simp: read_text_def read_bytes_def w lookup_append copied_files_def list_dir_def
            split: option.split node.split)
    qed
  qed
qed

lemma read_dict_set:
  "n \<noteq> ''..'' \<Longrightarrow> read_text (Dir (dict_set es t (File x))) [n] =
     (if n = t then map_option universal_newlines (decode_strict x) else read_text (Dir es) [n])"
  by (simp add: read_text_def read_bytes_def)

lemma ascii_text_reads: "ascii t \<Longrightarrow> CR \<notin> set t \<Longrightarrow> map_option universal_newlines (decode_strict t) = Some t"
  by (simp add: decode_strict_def ascii_valid universal_newlines_id)

lemma unlines_ascii: "\<forall>l\<in>set ls. ascii l \<Longrightarrow> ascii (unlines ls)"
  by (induction ls) (auto simp: ascii_def)

lemma unlines_no_cr: "\<forall>l\<in>set ls. one_line l \<Longrightarrow> CR \<notin> set (unlines ls)"
  using linebreak_chars(2) by (induction ls) (auto simp: one_line_def)

lemma join_line_differs:
  assumes "x \<noteq> y" shows "join [NL] (A @ x # B) @ [NL] \<noteq> join [NL] (A @ y # B) @ [NL]"
  using assms by (simp add: join_unlines)

lemma tamper_texts:
  "t = ct_tamper_from \<or> t = ct_tamper_to \<Longrightarrow> t \<noteq> [] \<and> \<not> is_space (hd t) \<and> \<not> is_space (last t)"
  "t = ct_tamper_from \<or> t = ct_tamper_to \<Longrightarrow> hd t = CHR ''a'' \<and> one_line t \<and> ascii t"
  "ct_tamper_from \<noteq> ct_tamper_to"
  by (auto simp: ct_tamper_from_def ct_tamper_to_def char_class_defs ascii_def)

lemma ct_rule_tamper:
  "strip d = ct_tamper_from \<Longrightarrow> ct_strip_line ''ct_fifo_gold_dbg'' em d = Some d"
  "strip d = ct_tamper_to \<Longrightarrow> ct_strip_line ''ct_fifo_gold_dbg'' em d = Some d"
  by (simp_all add: ct_strip_line_def ct_DEBUG_PORTS_def startswith_def ct_tamper_from_def ct_tamper_to_def)

lemma ct_keeps_gate_line:
  assumes "\<forall>c\<in>set (u @ v). is_space c" "t = ct_tamper_from \<or> t = ct_tamper_to"
  shows "ct_strip_line ''ct_fifo_gold_dbg'' em (u @ t @ v) = Some (u @ t @ v)"
  using assms ct_rule_tamper strip_blanks[OF assms(1), of t] tamper_texts(1)[OF assms(2)] by metis

lemma not_space_a: "\<not> is_space CHR ''a''"
  by (simp add: char_class_defs)

lemma tampered_text:
  assumes "\<forall>d\<in>set ds1. \<not> contains d ct_tamper_from" "\<forall>c\<in>set (u @ v). is_space c"
  shows "replace1 (unlines (ds1 @ (u @ ct_tamper_from @ v) # ds2)) ct_tamper_from ct_tamper_to =
    unlines (ds1 @ (u @ ct_tamper_to @ v) # ds2)"
proof -
  have t: "ct_tamper_from \<noteq> []" "hd ct_tamper_from \<notin> set u" "NL \<notin> set ct_tamper_from"
    using assms(2) not_space_a by (auto simp: ct_tamper_from_def)
  with assms(1) replace1_skip_chars[OF t(1,2)] show ?thesis by (simp add: replace1_skip_lines)
qed

section \<open>Properties\<close>

text \<open>C20: exit 0 of the ct_fifo check, with or without the self-test, means that both debug copies are
  their exact modules with observation ports: their lines are the lines of the exact file, a comma
  may follow the last port, the header names the debug module, and every other line of the copy is
  a debug port, an output declaration of one, or an assignment to a \<^verbatim>\<open>dbg_\<close> name.\<close>

theorem ct_exit_zero_observes:
  assumes "ct_main fs base selftest = (0, msgs)"
    and "(exact, debug, dm, em) \<in> set ct_pairs"
  shows "\<exists>ls d. read_text fs (base @ [exact]) = Some (join [NL] ls @ [NL]) \<and>
    read_text fs (base @ [debug]) = Some d \<and>
    observes (instrumentation ct_DEBUG_PORTS) (ct_edit dm em) ls (splitlines d)"
proof -
  from assms(1) have "\<exists>m. ct_run_checks fs base = Inr (True, m)"
    by (auto simp: ct_main_def dest: passivity_main_zero)
  with assms(2) obtain e d where "read_text fs (base @ [exact]) = Some e"
    "read_text fs (base @ [debug]) = Some d" "e = ct_strip_debug_lines d dm em"
    unfolding ct_run_ok by fast
  then show ?thesis
    using observes_filter[of "ct_strip_line dm em" "instrumentation ct_DEBUG_PORTS" "ct_edit dm em" "splitlines d"]
    by (auto simp: ct_strip_debug_lines_def strip_with_def ct_strip_None ct_strip_Some)
qed

text \<open>The ct_fifo check does not see a statement written behind an observation tap: put the line
  \<^verbatim>\<open>assign dbg_\<close> followed by any text, a second assignment to a functional net included, anywhere
  into a debug copy that passes, and it passes again.\<close>

theorem ct_accepts_smuggled_statement:
  assumes pass: "fst (ct_main fs base False) = 0"
    and before: "read_text fs (base @ [''ct_fifo_gold_dbg.v'']) = Some (unlines (ds1 @ ds2))"
    and after: "read_text fs' (base @ [''ct_fifo_gold_dbg.v'']) =
      Some (unlines (ds1 @ (''assign dbg_'' @ s) # ds2))"
    and others: "\<forall>name\<in>set [''ct_fifo_gold.v'', ''ct_fifo_gate_candidate.v'', ''ct_fifo_gate_dbg.v''].
      read_text fs' (base @ [name]) = read_text fs (base @ [name])"
    and lines: "\<forall>d\<in>set ((''assign dbg_'' @ s) # ds1 @ ds2). one_line d"
  shows "fst (ct_main fs' base False) = 0"
proof -
  define tap where "tap = ''assign dbg_'' @ s"
  have "ct_strip_line dm em tap = None" for dm em unfolding tap_def by (rule ct_strip_tap)
  moreover have "\<forall>d\<in>set (ds1 @ tap # ds2). one_line d" "\<forall>d\<in>set (ds1 @ ds2). one_line d"
    using lines unfolding tap_def by auto
  ultimately have "ct_strip_debug_lines (unlines (ds1 @ tap # ds2)) dm em =
      ct_strip_debug_lines (unlines (ds1 @ ds2)) dm em" for dm em
    by (simp add: ct_strip_debug_lines_def strip_with_def splitlines_unlines map_filter_append
        List.map_filter_simps del: unlines_simps)
  with pass others before after[folded tap_def] show ?thesis
    by (simp add: ct_main_def main_plain_zero ct_run_ok ct_pairs_def)
qed

text \<open>C33: on a package that passes, the self-test passes too: when the gold debug copy has the
  assignment the self-test edits on a line of its own, the edited copy is rejected and the run with
  \<^verbatim>\<open>--selftest\<close> exits 0.\<close>

theorem ct_selftest_bites:
  assumes pass: "fst (ct_main fs base False) = 0"
    and wf: "wf_node fs" "''..'' \<notin> set base"
    and debug: "read_text fs (base @ [''ct_fifo_gold_dbg.v'']) =
      Some (unlines (ds1 @ (u @ ct_tamper_from @ v) # ds2))"
    and lines: "\<forall>d\<in>set ((u @ v) # ds1 @ ds2). one_line d \<and> ascii d \<and> \<not> contains d ct_tamper_from"
    and blank: "\<forall>c\<in>set (u @ v). is_space c"
  shows "fst (ct_main fs base True) = 0"
proof -
  let ?n = "''ct_fifo_gold_dbg.v''"
  let ?line = "\<lambda>t. u @ t @ v" and ?text = "\<lambda>t. unlines (ds1 @ (u @ t @ v) # ds2)"
  let ?tmp = "copied_files fs base" and ?strip = "\<lambda>t. ct_strip_debug_lines (?text t) ''ct_fifo_gold_dbg'' ''ct_fifo''"
  let ?rule = "ct_strip_line ''ct_fifo_gold_dbg'' ''ct_fifo''"
  let ?fs' = "Dir (dict_set ?tmp ?n (File (?text ct_tamper_to)))"
  have copy: "read_text (Dir ?tmp) [n] = read_text fs (base @ [n])" if "n \<noteq> ''..''" for n
    using wf that by (rule copied_read)
  have lines_ok: "\<forall>d\<in>set (ds1 @ (u @ t @ v) # ds2). one_line d \<and> ascii d"
    if "t = ct_tamper_from \<or> t = ct_tamper_to" for t
    using that lines tamper_texts(2)[OF that] by (auto simp: ascii_def)
  have "replace1 (?text ct_tamper_from) ct_tamper_from ct_tamper_to = ?text ct_tamper_to"
    using tampered_text[OF _ blank] lines by simp
  moreover have "?text ct_tamper_to \<noteq> ?text ct_tamper_from"
    using tamper_texts(3) by simp
  moreover have "ascii (?text ct_tamper_to)" "CR \<notin> set (?text ct_tamper_to)"
    using lines_ok[of ct_tamper_to]
    by (intro unlines_ascii, blast, intro unlines_no_cr, blast)
  then have reread: "read_text ?fs' [?n] = Some (?text ct_tamper_to)"
    unfolding read_dict_set[of ?n, simplified] using ascii_text_reads by simp
  moreover note reread
  ultimately have self: "ct_selftest fs base = bind_res (ct_run_checks ?fs' [])
      (\<lambda>(ok, msgs). Inr (if ok then (False, SelftestAccepted) else (True, SelftestRejected msgs)))"
    by (simp add: ct_selftest_def selftest_with_def Let_def copy debug read_text_res_def)
  from pass have pairs: "\<forall>(exact, debug, dm, em)\<in>set ct_pairs. \<exists>e d.
      read_text fs (base @ [exact]) = Some e \<and> read_text fs (base @ [debug]) = Some d \<and>
      e = ct_strip_debug_lines d dm em"
    unfolding ct_main_def main_plain_zero ct_run_ok .
  have strip: "?strip t = join [NL] (List.map_filter ?rule ds1 @ (u @ t @ v) # List.map_filter ?rule ds2) @ [NL]"
    if "t = ct_tamper_from \<or> t = ct_tamper_to" for t
  proof -
    have "splitlines (?text t) = ds1 @ (u @ t @ v) # ds2"
      using lines_ok[OF that] by (intro splitlines_unlines) blast
    then show ?thesis
      by (simp only: ct_strip_debug_lines_def strip_with_def map_filter_append List.map_filter_simps
          ct_keeps_gate_line[OF blank that] option.case)
  qed
  have "u @ ct_tamper_from @ v \<noteq> u @ ct_tamper_to @ v" using tamper_texts(3) by simp
  then have "?strip ct_tamper_from \<noteq> ?strip ct_tamper_to"
    unfolding strip[OF disjI1[OF refl]] strip[OF disjI2[OF refl]] by (rule join_line_differs)
  moreover have other: "read_text ?fs' [n] = read_text fs (base @ [n])" if "n \<noteq> ''..''" "n \<noteq> ?n" for n
    using that by (simp add: read_dict_set copy)
  ultimately have "\<not> (\<exists>m. ct_run_checks ?fs' [] = Inr (True, m))"
    using pairs by (simp add: ct_run_ok ct_pairs_def reread debug del: unlines_simps)
  moreover have "\<exists>ok m. ct_run_checks ?fs' [] = Inr (ok, m)"
    using pairs debug by (intro ct_run_total) (auto simp: ct_pairs_def reread other simp del: unlines_simps)
  ultimately obtain m where "ct_run_checks ?fs' [] = Inr (False, m)" by (metis (full_types))
  with self have "ct_selftest fs base = Inr (True, SelftestRejected m)" by simp
  moreover obtain m' where "ct_run_checks fs base = Inr (True, m')"
    using pass by (auto simp: ct_main_def main_plain_zero)
  ultimately show ?thesis by (simp add: ct_main_def passivity_main_def)
qed

text \<open>The vreg-entry check compares the lines that are not blank, each without its trailing
  blanks: exit 0 exactly when these agree between every exact file and what is left of its debug
  copy.\<close>

theorem vreg_exit_zero_exact:
  "fst (vreg_main fs base False) = 0 \<longleftrightarrow>
     vreg_agrees fs (base @ [''ct_rtu_pst_vreg_entry_gold.v'']) (base @ [''ct_rtu_pst_vreg_entry_gold_dbg.v'']) \<and>
     vreg_agrees fs (base @ [''ct_rtu_pst_vreg_entry_gate_candidate.v''])
       (base @ [''ct_rtu_pst_vreg_entry_gate_dbg.v''])"
  by (simp add: vreg_main_def main_plain_zero vreg_run_checks_def run_pairs_ok vreg_agrees_def vreg_pair_None)

section \<open>Witnesses\<close>

definition demo_body :: "str list" where
  "demo_body = [''input clk;'', '' '' @ ct_tamper_from, ''endmodule'']"

definition ct_demo :: "str list \<Rightarrow> node" where
  "ct_demo taps =
     Dir [(''ct_fifo_gold.v'', File (unlines ([''module ct_fifo('', ''fifo_icg_en'', '');''] @ demo_body))),
          (''ct_fifo_gold_dbg.v'', File (unlines (
             [''module ct_fifo_gold_dbg('', ''fifo_icg_en,'', ''dbg_pop_ptr'', '');''] @ taps @ demo_body))),
          (''ct_fifo_gate_candidate.v'', File (unlines [''module ct_fifo_gate();''])),
          (''ct_fifo_gate_dbg.v'', File (unlines [''module ct_fifo_gate_dbg();'']))]"

lemma ct_demo_passes: "ct_main (ct_demo []) [] False = (0, [PassivePair ''gold'', PassivePair ''gate''])"
  by code_simp

theorem ct_exit_zero_observes_witness:
  "\<exists>ls d. read_text (ct_demo []) [''ct_fifo_gold.v''] = Some (join [NL] ls @ [NL]) \<and>
    read_text (ct_demo []) [''ct_fifo_gold_dbg.v''] = Some d \<and>
    observes (instrumentation ct_DEBUG_PORTS) (ct_edit ''ct_fifo_gold_dbg'' ''ct_fifo'') ls (splitlines d)"
  using ct_exit_zero_observes[OF ct_demo_passes, of "''ct_fifo_gold.v''" "''ct_fifo_gold_dbg.v''"
      "''ct_fifo_gold_dbg''" "''ct_fifo''"]
  by (simp add: ct_pairs_def)

definition smuggled :: "str list" where
  "smuggled = [''assign dbg_pop_ptr = 0; assign fifo_full = 0;'']"

theorem ct_accepts_smuggled_statement_witness:
  "fst (ct_main (ct_demo smuggled) [] False) = 0"
  by (rule ct_accepts_smuggled_statement[of "ct_demo []" "[]"
        "[''module ct_fifo_gold_dbg('', ''fifo_icg_en,'', ''dbg_pop_ptr'', '');'']" demo_body _
        "''pop_ptr = 0; assign fifo_full = 0;''"])
    code_simp+

theorem ct_selftest_bites_witness: "fst (ct_main (ct_demo []) [] True) = 0"
  by (rule ct_selftest_bites[of "ct_demo []" "[]"
        "[''module ct_fifo_gold_dbg('', ''fifo_icg_en,'', ''dbg_pop_ptr'', '');'', ''input clk;'']"
        "'' ''" "[]" "[''endmodule'']"])
    code_simp+

end
