(* ===== verification/PpaArea.thy ===== *)
theory PpaArea
  imports Regex Json
begin

text \<open>
  The composed area of \<^verbatim>\<open>src/athanor/full_top_ppa_harness.py\<close>: reading the module sections of a
  Yosys \<^verbatim>\<open>stat\<close> log, and adding up a module's own area and the areas of its submodules, each times
  its count, with a table of the totals already computed. Areas are the doubles of theory \<open>PyFloat\<close>
  (finite; a literal too large for a double is outside the model).

  Python's recursion limit is the argument \<open>limit\<close>: the call that would go deeper than \<open>limit\<close>
  nested ones raises a RecursionError. \<open>total_computes\<close> says that the table does not change what is
  computed; \<open>cyclic_never_returns\<close> that a hierarchy that instantiates itself exceeds every limit.
\<close>

section \<open>Reading the log\<close>

record module_stat =
  local_area :: rat
  submodules :: "(nat \<times> string) list"

text \<open>The state of the loop: the sections so far, the current one, and whether the lines are inside
  a list of submodules.\<close>

record stat_state =
  st_modules :: "(string \<times> module_stat) list"
  st_current :: "string option"
  st_in_submodules :: bool

definition module_key :: "string \<Rightarrow> string" where
  "module_key name = removeprefix name [BACKSLASH]"

definition heading_rx :: rx where
  "heading_rx = rseq [rlit ''=== '', rplus rdot, rlit '' ==='']"

definition area_rx :: rx where
  "area_rx =
     rseq [rlit ''Chip area for module '', rchar SQUOTE, rplus (rnot [single SQUOTE]), rchar SQUOTE,
           rchar CHR '':'', rplus rspace,
           rplus (rcls [d09, single CHR ''.'', single CHR ''E'', single CHR ''e'', single CHR ''+'', single CHR ''-''])]"

definition submodules_rx :: rx where
  "submodules_rx =
     rseq [rplus rspace, rplus rdigit, rplus rspace, rchar CHR ''-'', rplus rspace, rlit ''submodules'', RStar rspace]"

definition submodule_rx :: rx where
  "submodule_rx =
     rseq [rplus rspace, rplus rdigit, rplus rspace, rchar CHR ''-'', rtimes 3 rspace, rplus rdot]"

text \<open>The groups of the four patterns, read off the matched text.\<close>

definition heading_name :: "str \<Rightarrow> string option" where
  "heading_name line =
     (if rx_fullmatch heading_rx line then Some (take (length line - 8) (drop 4 line)) else None)"

definition area_groups :: "str \<Rightarrow> (string \<times> string) option" where
  "area_groups line =
     map_option (\<lambda>(a, b).
       let m = drop 22 (matched a b); name = takeWhile (\<lambda>c. c \<noteq> SQUOTE) m
       in (name, lstrip (drop (length name + 2) m)))
       (search_from area_rx [] line)"

definition submodule_groups :: "str \<Rightarrow> (nat \<times> string) option" where
  "submodule_groups line =
     (if rx_fullmatch submodule_rx line then
        let t = lstrip line; ds = takeWhile is_digit t
        in Some (digits_val ds, drop 4 (lstrip (drop (length ds) t)))
      else None)"

definition stat_line :: "stat_state \<Rightarrow> str \<Rightarrow> stat_state res" where
  "stat_line st line =
     (case heading_name line of
        Some name \<Rightarrow>
          Inr (st\<lparr>st_current := Some (module_key name),
                  st_modules := dict_set (st_modules st) (module_key name) \<lparr>local_area = 0, submodules = []\<rparr>,
                  st_in_submodules := False\<rparr>)
      | None \<Rightarrow>
     (case st_current st of None \<Rightarrow> Inr st
      | Some current \<Rightarrow>
     (case area_groups line of
        Some (g1, g2) \<Rightarrow>
          let key = (if map_of (st_modules st) (module_key g1) \<noteq> None then module_key g1 else current) in
          (case (parse_float g2, map_of (st_modules st) key) of
             (Some area, Some m) \<Rightarrow>
               Inr (st\<lparr>st_modules := dict_set (st_modules st) key (m\<lparr>local_area := area\<rparr>),
                       st_in_submodules := False\<rparr>)
           | (None, _) \<Rightarrow> Inl (ValueError g2)
           | (_, None) \<Rightarrow> Inl (KeyError key))
      | None \<Rightarrow>
     (if rx_fullmatch submodules_rx line then Inr (st\<lparr>st_in_submodules := True\<rparr>)
      else if st_in_submodules st then
        (case submodule_groups line of
           Some (n, name) \<Rightarrow>
             (case map_of (st_modules st) current of
                Some m \<Rightarrow>
                  Inr (st\<lparr>st_modules := dict_set (st_modules st) current
                            (m\<lparr>submodules := submodules m @ [(n, module_key name)]\<rparr>)\<rparr>)
              | None \<Rightarrow> Inl (KeyError current))
         | None \<Rightarrow> Inr (if strip line \<noteq> [] then st\<lparr>st_in_submodules := False\<rparr> else st))
      else Inr st))))"

fun stat_lines :: "stat_state \<Rightarrow> str list \<Rightarrow> stat_state res" where
  "stat_lines st [] = Inr st"
| "stat_lines st (line # lines) = bind_res (stat_line st line) (\<lambda>st'. stat_lines st' lines)"

definition stat_init :: stat_state where
  "stat_init = \<lparr>st_modules = [], st_current = None, st_in_submodules = False\<rparr>"

definition parse_yosys_stat_modules :: "str \<Rightarrow> (string \<times> module_stat) list res" where
  "parse_yosys_stat_modules log_text =
     bind_res (stat_lines stat_init (splitlines log_text)) (\<lambda>st. Inr (st_modules st))"

section \<open>Adding up\<close>

text \<open>\<open>total\<close>, which returns the table \<open>seen\<close> beside its value; the loop over the submodules is
  \<open>total_subs\<close>.\<close>

type_synonym totals = "(string \<times> rat) list"

fun total :: "nat \<Rightarrow> (string \<times> module_stat) list \<Rightarrow> string \<Rightarrow> totals \<Rightarrow> (rat \<times> totals) res"
and total_subs :: "nat \<Rightarrow> (string \<times> module_stat) list \<Rightarrow> (nat \<times> string) list \<Rightarrow> rat \<Rightarrow> totals
  \<Rightarrow> (rat \<times> totals) res" where
  "total 0 modules name seen = Inl RecursionError"
| "total (Suc limit) modules name seen =
     (let key = module_key name in
      case map_of seen key of Some v \<Rightarrow> Inr (v, seen)
      | None \<Rightarrow>
     (case map_of modules key of None \<Rightarrow> Inr (0, seen)
      | Some stat \<Rightarrow>
          bind_res (total_subs limit modules (submodules stat) (local_area stat) seen)
            (\<lambda>(v, seen'). Inr (v, dict_set seen' key v))))"
| "total_subs limit modules [] v seen = Inr (v, seen)"
| "total_subs limit modules ((n, sub) # subs) v seen =
     bind_res (total limit modules sub seen)
       (\<lambda>(a, seen'). total_subs limit modules subs (float_add v (float_scale n a)) seen')"

definition composed_area_from_yosys_stat :: "nat \<Rightarrow> str \<Rightarrow> string \<Rightarrow> rat res" where
  "composed_area_from_yosys_stat limit log_text top_name =
     bind_res (parse_yosys_stat_modules log_text) (\<lambda>modules.
     bind_res (total limit modules top_name []) (\<lambda>(v, seen). Inr v))"

section \<open>The plain recursion\<close>

text \<open>The same sums without a table, to a given depth.\<close>

fun plain_area :: "(string \<times> module_stat) list \<Rightarrow> nat \<Rightarrow> string \<Rightarrow> rat" where
  "plain_area modules 0 key = 0"
| "plain_area modules (Suc n) key =
     (case map_of modules key of None \<Rightarrow> 0
      | Some stat \<Rightarrow>
          foldl (\<lambda>v (m, sub). float_add v (float_scale m (plain_area modules n (module_key sub))))
            (local_area stat) (submodules stat))"

text \<open>A rank that falls from a module to each of its submodules: the hierarchy has no cycle.\<close>

definition ranked :: "(string \<times> module_stat) list \<Rightarrow> (string \<Rightarrow> nat) \<Rightarrow> bool" where
  "ranked modules r \<longleftrightarrow>
     (\<forall>key stat. map_of modules key = Some stat \<longrightarrow>
        (\<forall>(m, sub)\<in>set (submodules stat). r (module_key sub) < r key))"

lemma rankedD:
  "ranked modules r \<Longrightarrow> map_of modules key = Some stat \<Longrightarrow> (m, sub) \<in> set (submodules stat) \<Longrightarrow>
     r (module_key sub) < r key"
  unfolding ranked_def by fast

lemma foldl_cong_set:
  "(\<And>v x. x \<in> set xs \<Longrightarrow> f v x = g v x) \<Longrightarrow> foldl f v xs = foldl g v xs"
  by (induction xs arbitrary: v) auto

lemma plain_area_depth:
  assumes "ranked modules r"
  shows "r key < n \<Longrightarrow> r key < n' \<Longrightarrow> plain_area modules n key = plain_area modules n' key"
proof (induction n arbitrary: n' key)
  case (Suc n)
  then obtain k where n': "n' = Suc k" by (cases n') auto
  show ?case
  proof (cases "map_of modules key")
    case (Some stat)
    have "plain_area modules n (module_key sub) = plain_area modules k (module_key sub)"
      if "(m, sub) \<in> set (submodules stat)" for m sub
      using Suc.IH[of "module_key sub" k] rankedD[OF assms Some that] Suc.prems n' by simp
    then show ?thesis unfolding n' by (auto simp: Some intro!: foldl_cong_set)
  qed (simp add: n')
qed simp

text \<open>What the table of totals holds.\<close>

definition table_ok :: "(string \<times> module_stat) list \<Rightarrow> nat \<Rightarrow> totals \<Rightarrow> bool" where
  "table_ok modules n seen \<longleftrightarrow> (\<forall>key v. map_of seen key = Some v \<longrightarrow> v = plain_area modules n key)"

lemma total_computes:
  assumes "ranked modules r"
  shows "(\<And>n. r (module_key name) < limit \<Longrightarrow> limit \<le> n \<Longrightarrow> table_ok modules n seen \<Longrightarrow>
      \<exists>seen'. total limit modules name seen = Inr (plain_area modules n (module_key name), seen') \<and>
        table_ok modules n seen')"
    and "(\<And>n. \<forall>(m, sub)\<in>set subs. r (module_key sub) < limit' \<Longrightarrow> limit' \<le> n \<Longrightarrow> table_ok modules n seen'' \<Longrightarrow>
      \<exists>seen'. total_subs limit' modules subs v seen'' =
          Inr (foldl (\<lambda>v (m, sub). float_add v (float_scale m (plain_area modules n (module_key sub)))) v subs, seen') \<and>
        table_ok modules n seen')"
  using assms
proof (induction limit modules name seen and limit' modules subs v seen'' rule: total_total_subs.induct)
  case (2 limit modules name seen)
  let ?key = "module_key name"
  show ?case
  proof (cases "map_of seen ?key")
    case None
    note seen = None
    show ?thesis
    proof (cases "map_of modules ?key")
      case None
      then show ?thesis using 2 seen by (cases n) (auto simp: Let_def)
    next
      case (Some stat)
      obtain k where n: "n = Suc k" using 2(3) by (cases n) auto
      have "\<forall>(m, sub)\<in>set (submodules stat). r (module_key sub) < limit"
        using rankedD[OF 2(5) Some] 2(2) by fastforce
      then obtain seen' where sub: "total_subs limit modules (submodules stat) (local_area stat) seen =
          Inr (foldl (\<lambda>v (m, sub). float_add v (float_scale m (plain_area modules n (module_key sub)))) (local_area stat) (submodules stat), seen')"
        and ok: "table_ok modules n seen'"
        using 2(1)[OF refl seen Some, of n] 2(3-5) by auto
      have "plain_area modules n (module_key sub) = plain_area modules k (module_key sub)"
        if "(m, sub) \<in> set (submodules stat)" for m sub
        using rankedD[OF 2(5) Some that] 2(2,3) n by (intro plain_area_depth[OF 2(5)]) auto
      then have "foldl (\<lambda>v (m, sub). float_add v (float_scale m (plain_area modules n (module_key sub))))
          (local_area stat) (submodules stat) = plain_area modules n ?key"
        unfolding n by (auto simp: Some intro!: foldl_cong_set)
      with sub ok seen Some show ?thesis by (auto simp: Let_def table_ok_def)
    qed
  qed (use 2(4) in \<open>auto simp: Let_def table_ok_def\<close>)
next
  case (4 limit modules m sub subs v seen)
  from 4(3) have "r (module_key sub) < limit" by simp
  from 4(1)[OF this 4(4,5,6)] obtain seen' where t:
    "total limit modules sub seen = Inr (plain_area modules n (module_key sub), seen')" "table_ok modules n seen'"
    by blast
  from 4(2)[OF _ 4(4) t(2) 4(6)] 4(3) t(1) show ?case by auto
qed auto

section \<open>Cycles\<close>

lemma total_errors:
  "total limit modules name seen = Inl e \<Longrightarrow> e = RecursionError"
  "total_subs limit' modules subs v seen'' = Inl e \<Longrightarrow> e = RecursionError"
  by (induction limit modules name seen and limit' modules subs v seen'' rule: total_total_subs.induct)
    (auto simp: Let_def bind_res_eq_Inl split: option.splits)

text \<open>A set of modules each of which instantiates one of the set.\<close>

definition recurrent :: "(string \<times> module_stat) list \<Rightarrow> string set \<Rightarrow> bool" where
  "recurrent modules S \<longleftrightarrow>
     (\<forall>key\<in>S. \<exists>stat m sub. map_of modules key = Some stat \<and> (m, sub) \<in> set (submodules stat) \<and>
        module_key sub \<in> S)"

lemma total_avoids:
  assumes "recurrent modules S"
  shows "total limit modules name seen = Inr (a, seen') \<Longrightarrow> dom (map_of seen) \<inter> S = {} \<Longrightarrow>
      module_key name \<notin> S \<and> dom (map_of seen') \<inter> S = {}"
    and "total_subs limit' modules subs v seen'' = Inr (a', seen') \<Longrightarrow> dom (map_of seen'') \<inter> S = {} \<Longrightarrow>
      (\<forall>(m, sub)\<in>set subs. module_key sub \<notin> S) \<and> dom (map_of seen') \<inter> S = {}"
  using assms
proof (induction limit modules name seen and limit' modules subs v seen'' arbitrary: a seen' and a' seen'
    rule: total_total_subs.induct)
  case (2 limit modules name seen)
  let ?key = "module_key name"
  show ?case
  proof (cases "map_of seen ?key")
    case None
    note seen = None
    show ?thesis
    proof (cases "map_of modules ?key")
      case None
      then show ?thesis using 2(2-4) seen by (auto simp: Let_def recurrent_def)
    next
      case (Some stat)
      then obtain seen2 where sub:
        "total_subs limit modules (submodules stat) (local_area stat) seen = Inr (a, seen2)"
        and seen': "seen' = dict_set seen2 ?key a"
        using 2(2) seen by (auto simp: Let_def bind_res_eq_Inr)
      from 2(1)[OF refl seen Some sub 2(3,4)] have
        avoid: "\<forall>(m, sub)\<in>set (submodules stat). module_key sub \<notin> S" "dom (map_of seen2) \<inter> S = {}" by auto
      then have "?key \<notin> S" using 2(4) Some by (fastforce simp: recurrent_def)
      moreover have "dom (map_of seen') = insert ?key (dom (map_of seen2))" by (simp add: seen')
      ultimately show ?thesis using avoid(2) by (simp add: Int_insert_left)
    qed
  qed (use 2(2,3) in \<open>auto simp: Let_def\<close>)
next
  case (4 limit modules m sub subs v seen)
  from 4(3) obtain b seen1 where t: "total limit modules sub seen = Inr (b, seen1)"
    "total_subs limit modules subs (float_add v (float_scale m b)) seen1 = Inr (a', seen')"
    by (auto simp: bind_res_eq_Inr)
  from 4(1)[OF t(1) 4(4,5)] 4(2)[OF t(2) _ 4(5)] show ?case by auto
qed auto

lemma recurrent_raises:
  assumes "recurrent modules S" "module_key name \<in> S"
  shows "total limit modules name [] = Inl RecursionError"
proof (cases "total limit modules name []")
  case (Inl e)
  then show ?thesis using total_errors(1) by metis
next
  case (Inr r)
  obtain a seen' where "r = (a, seen')" by (cases r)
  with total_avoids(1)[OF assms(1), of limit name "[]" a seen'] Inr assms(2) show ?thesis by simp
qed

section \<open>The parser's state\<close>

text \<open>The current section is always one of the sections, and no section is kept twice.\<close>

definition stat_inv :: "stat_state \<Rightarrow> bool" where
  "stat_inv st \<longleftrightarrow> distinct (map fst (st_modules st)) \<and>
     (case st_current st of None \<Rightarrow> st_modules st = [] | Some key \<Rightarrow> map_of (st_modules st) key \<noteq> None)"

lemma stat_line_step:
  assumes "stat_inv st"
  shows "case stat_line st line of
      Inr st' \<Rightarrow> stat_inv st'
    | Inl e \<Rightarrow> (\<exists>text. e = ValueError text \<and> parse_float text = None)"
  using assms
  by (auto simp: stat_line_def stat_inv_def Let_def keys_dict_set split: option.splits prod.splits)

lemma stat_lines_inv:
  "stat_inv st \<Longrightarrow> case stat_lines st lines of
      Inr st' \<Rightarrow> stat_inv st'
    | Inl e \<Rightarrow> (\<exists>text. e = ValueError text \<and> parse_float text = None)"
proof (induction lines arbitrary: st)
  case (Cons line lines)
  from stat_line_step[OF Cons.prems, of line] show ?case
    by (cases "stat_line st line") (auto dest: Cons.IH)
qed simp

lemma stat_inv_init: "stat_inv stat_init"
  by (simp add: stat_inv_def stat_init_def)

section \<open>Properties\<close>

text \<open>C27: on a log whose module hierarchy has no cycle the composed area is the one of the plain
  recursion: the table of totals changes neither the value nor, within the recursion limit, that
  there is one.\<close>

theorem composed_area_plain:
  assumes "parse_yosys_stat_modules log_text = Inr modules"
    and "ranked modules r" "r (module_key top_name) < limit"
  shows "composed_area_from_yosys_stat limit log_text top_name =
    Inr (plain_area modules limit (module_key top_name))"
  using total_computes(1)[OF assms(2,3), of limit "[]"] assms(1)
  by (auto simp: composed_area_from_yosys_stat_def table_ok_def)

text \<open>C36: on a log in which the module asked for instantiates itself, directly or through others, no
  recursion limit is enough: the run always ends in a RecursionError.\<close>

theorem cyclic_never_returns:
  assumes "parse_yosys_stat_modules log_text = Inr modules"
    and "recurrent modules S" "module_key top_name \<in> S"
  shows "composed_area_from_yosys_stat limit log_text top_name = Inl RecursionError"
  by (simp add: composed_area_from_yosys_stat_def assms(1) recurrent_raises[OF assms(2,3)])

text \<open>Reading a log, whatever its lines, keeps the current section among the sections read, each
  kept once, so the only exception is the ValueError of an area that is not a number.\<close>

theorem stat_parser_safe:
  "case parse_yosys_stat_modules log_text of
     Inr modules \<Rightarrow> distinct (map fst modules)
   | Inl e \<Rightarrow> (\<exists>text. e = ValueError text \<and> parse_float text = None)"
  using stat_lines_inv[OF stat_inv_init, of "splitlines log_text"]
  by (cases "stat_lines stat_init (splitlines log_text)")
    (auto simp: parse_yosys_stat_modules_def stat_inv_def)

section \<open>Witnesses\<close>

definition demo_log :: str where
  "demo_log = unlines
     [''=== top ==='', ''  2 - submodules'', ''  1 -   b'', ''  2 -   c'',
      ''=== b ==='', ''  1 - submodules'', ''  3 -   c'',
      ''=== c ==='', ''Chip area for module '' @ [SQUOTE] @ ''c'' @ [SQUOTE] @ '': 1.5'']"

definition demo_modules :: "(string \<times> module_stat) list" where
  "demo_modules =
     [(''top'', \<lparr>local_area = 0, submodules = [(1, ''b''), (2, ''c'')]\<rparr>),
      (''b'', \<lparr>local_area = 0, submodules = [(3, ''c'')]\<rparr>),
      (''c'', \<lparr>local_area = 3 / 2, submodules = []\<rparr>)]"

lemma demo_log_modules: "parse_yosys_stat_modules demo_log = Inr demo_modules"
  by code_simp

theorem composed_area_plain_witness:
  "composed_area_from_yosys_stat 10 demo_log ''top'' = Inr (plain_area demo_modules 10 ''top'')"
  using composed_area_plain[OF demo_log_modules, of "\<lambda>k. if k = ''top'' then 2 else if k = ''b'' then 1 else 0" "''top''" 10]
  by (simp add: ranked_def demo_modules_def module_key_def removeprefix_def)

definition loop_log :: str where
  "loop_log = unlines [''=== a ==='', '' 1 - submodules'', '' 1 -   b'', ''=== b ==='', '' 1 - submodules'', '' 1 -   a'']"

theorem cyclic_never_returns_witness:
  "composed_area_from_yosys_stat 1000 loop_log ''a'' = Inl RecursionError"
proof (rule cyclic_never_returns)
  show "parse_yosys_stat_modules loop_log =
      Inr [(''a'', \<lparr>local_area = 0, submodules = [(1, ''b'')]\<rparr>), (''b'', \<lparr>local_area = 0, submodules = [(1, ''a'')]\<rparr>)]"
    by code_simp
  show "recurrent [(''a'', \<lparr>local_area = 0, submodules = [(1, ''b'')]\<rparr>), (''b'', \<lparr>local_area = 0, submodules = [(1, ''a'')]\<rparr>)]
      {''a'', ''b''}"
    by (simp add: recurrent_def module_key_def removeprefix_def)
  show "module_key ''a'' \<in> {''a'', ''b''}" by (simp add: module_key_def removeprefix_def)
qed

end
