(* ===== verification/PpaReceipt.thy ===== *)
theory PpaReceipt
  imports JsonText Sha256 Files PpaArea "HOL-Library.Multiset"
begin

text \<open>
  The receipts of \<^verbatim>\<open>src/athanor/full_top_ppa_harness.py\<close>: canonical JSON and its digest, the source
  manifest, cache keys, the overlay rewrite, the named partial receipt, and the contract a package
  is checked against. A problem is the data its message carries.

  \<open>json.loads\<close> and \<open>json.dumps\<close> are those of theory \<open>JsonText\<close>, the digest is computed by theory
  \<open>Sha256\<close>. In \<open>sorted(sources, key=path)\<close> paths that are all strings, or all numbers, are ordered;
  other paths count as not comparable (a TypeError), also the lists that Python would compare.
\<close>

section \<open>Digests\<close>

definition PLIC_TOP_SOURCE_PATHS :: "string list" where
  "PLIC_TOP_SOURCE_PATHS =
     map ((@) ''C910_RTL_FACTORY/gen_rtl/'')
       [''cpu/rtl/cpu_cfig.h'', ''clk/rtl/gated_clk_cell.v'', ''common/rtl/sync_level2level.v'',
        ''common/rtl/sync_level2pulse.v'', ''plic/rtl/csky_apb_1tox_matrix.v'', ''plic/rtl/plic_32to1_arb.v'',
        ''plic/rtl/plic_arb_ctrl.v'', ''plic/rtl/plic_ctrl.v'', ''plic/rtl/plic_granu2_arb.v'',
        ''plic/rtl/plic_granu_arb.v'', ''plic/rtl/plic_hart_arb.v'', ''plic/rtl/plic_hreg_busif.v'',
        ''plic/rtl/plic_int_kid.v'', ''plic/rtl/plic_kid_busif.v'', ''plic/rtl/plic_top.v'']"

definition OVERLAY_MODULE_FROM :: string where
  "OVERLAY_MODULE_FROM = ''module plic_granu_arb_gate(''"

definition OVERLAY_MODULE_TO :: string where
  "OVERLAY_MODULE_TO = ''module plic_granu_arb(''"

definition canonical_json_bytes :: "json \<Rightarrow> bytes" where
  "canonical_json_bytes data = json_dumps compact_style (sort_keys data) @ [NL]"

definition canonical_json_sha256 :: "json \<Rightarrow> string" where
  "canonical_json_sha256 data = sha256 (canonical_json_bytes data)"

definition screen_config_sha256 :: "obj \<Rightarrow> string" where
  "screen_config_sha256 screen_config = canonical_json_sha256 (JObj screen_config)"

definition rewrite_plic_granu_overlay :: "str \<Rightarrow> str res" where
  "rewrite_plic_granu_overlay candidate_text =
     (if count_sub candidate_text OVERLAY_MODULE_FROM \<noteq> 1
      then Inl (ValueError ''expected exactly one plic_granu_arb_gate module declaration'')
      else Inr (replace1 candidate_text OVERLAY_MODULE_FROM OVERLAY_MODULE_TO))"

section \<open>The source manifest\<close>

text \<open>The path of an item of \<open>sources\<close>, by which \<open>sorted\<close> orders.\<close>

definition item_path :: "json \<Rightarrow> json res" where
  "item_path item =
     (case item of
        JObj kvs \<Rightarrow> (case map_of kvs ''path'' of Some p \<Rightarrow> Inr p | None \<Rightarrow> Inl (KeyError ''path''))
      | _ \<Rightarrow> Inl TypeError)"

definition str_key :: "json \<Rightarrow> string" where
  "str_key v = (case v of JStr s \<Rightarrow> s | _ \<Rightarrow> [])"

definition num_key :: "json \<Rightarrow> rat" where
  "num_key v = (case num_of v of Some q \<Rightarrow> q | None \<Rightarrow> 0)"

definition sort_items :: "json list \<Rightarrow> json list res" where
  "sort_items items =
     bind_res (map_res item_path items) (\<lambda>paths.
       let keyed = zip paths items in
       if length items \<le> 1 then Inr items
       else if list_all is_str paths then Inr (map snd (sort_key (\<lambda>(p, _). str_key p) keyed))
       else if list_all (\<lambda>p. num_of p \<noteq> None) paths
       then Inr (map snd (sort_key (\<lambda>(p, _). num_key p) keyed))
       else Inl TypeError)"

text \<open>\<open>sorted(v, key=..)\<close> of any value: only a list has items with a path; an empty string or object
  has no items, others are not iterable or have items without one.\<close>

definition sorted_sources :: "json \<Rightarrow> json list res" where
  "sorted_sources v =
     (case v of JArr items \<Rightarrow> sort_items items
      | JStr s \<Rightarrow> if s = [] then Inr [] else Inl TypeError
      | JObj kvs \<Rightarrow> if kvs = [] then Inr [] else Inl TypeError
      | _ \<Rightarrow> Inl TypeError)"

definition source_manifest_sha256 :: "obj \<Rightarrow> string res" where
  "source_manifest_sha256 manifest =
     bind_res (sorted_sources (get_or (JArr []) manifest ''sources'')) (\<lambda>sources.
       Inr (canonical_json_sha256 (JObj
         [(''schema'', get manifest ''schema''), (''target'', get manifest ''target''),
          (''sources'', JArr sources), (''gate_overlay'', get manifest ''gate_overlay'')])))"

definition source_role :: "string \<Rightarrow> string" where
  "source_role rel =
     (if endswith rel ''/plic_granu_arb.v'' then ''gold_only_replaced_by_candidate_overlay_for_gate''
      else ''gold_and_gate'')"

definition source_entry :: "node \<Rightarrow> path \<Rightarrow> string \<Rightarrow> json res" where
  "source_entry fs repo_root rel =
     (case read_bytes fs (join_path repo_root rel) of
        None \<Rightarrow> Inl (FileNotFoundError rel)
      | Some b \<Rightarrow> Inr (JObj [(''path'', JStr rel), (''role'', JStr (source_role rel)), (''sha256'', JStr (sha256 b))]))"

definition manifest_base :: "json list \<Rightarrow> string option \<Rightarrow> obj" where
  "manifest_base sources overlay_sha256 =
     [(''schema'', JStr ''openc910.plic_top_source_manifest.v1''), (''target'', JStr ''plic_top''),
      (''sources'', JArr sources)] @
     (case overlay_sha256 of
        Some sha \<Rightarrow> if sha = [] then []
          else [(''gate_overlay'', JObj [(''role'', JStr ''gate_only_replaces_plic_granu_arb''), (''sha256'', JStr sha)])]
      | None \<Rightarrow> [])"

definition source_manifest :: "node \<Rightarrow> path \<Rightarrow> string option \<Rightarrow> obj res" where
  "source_manifest fs repo_root overlay_sha256 =
     bind_res (map_res (source_entry fs repo_root) PLIC_TOP_SOURCE_PATHS) (\<lambda>sources.
       let manifest = manifest_base sources overlay_sha256 in
       bind_res (source_manifest_sha256 manifest) (\<lambda>sha.
         Inr (manifest @ [(''source_manifest_sha256'', JStr sha)])))"

definition opt_str :: "string option \<Rightarrow> json" where
  "opt_str s = (case s of None \<Rightarrow> JNull | Some t \<Rightarrow> JStr t)"

text \<open>The arguments of \<open>cache_key\<close>, all by keyword.\<close>

record cache_args =
  ca_mode :: string
  ca_boundary_scope :: string
  ca_source_manifest_digest :: string
  ca_screen_config_digest :: string
  ca_selected_flow :: string
  ca_toolchain_digest :: string
  ca_overlay_sha256 :: "string option"

definition cache_doc :: "cache_args \<Rightarrow> json" where
  "cache_doc a = JObj
     [(''mode'', JStr (ca_mode a)), (''boundary_scope'', JStr (ca_boundary_scope a)),
      (''source_manifest_sha256'', JStr (ca_source_manifest_digest a)),
      (''screen_config_sha256'', JStr (ca_screen_config_digest a)),
      (''selected_flow'', JStr (ca_selected_flow a)),
      (''toolchain_sha256'', JStr (ca_toolchain_digest a)),
      (''overlay_sha256'', opt_str (ca_overlay_sha256 a))]"

definition cache_key :: "cache_args \<Rightarrow> string" where
  "cache_key a = canonical_json_sha256 (cache_doc a)"

definition HOOKS :: "string list" where
  "HOOKS = [''content_hash_cache_key'', ''composed_not_whole_top'', ''named_partial_receipts'', ''screen_config_hash'']"

definition named_partial_receipt :: "string \<Rightarrow> string \<Rightarrow> int \<Rightarrow> string \<Rightarrow> obj" where
  "named_partial_receipt leg reason cap_seconds screen_config_digest =
     [(''schema'', JStr ''openc910.bounded_composed_ppa_attempt.v1''),
      (''status'', JStr ''partial_receipt''),
      (''customer_ready'', JBool False),
      (''target'', JObj [(''boundary_module'', JStr ''plic_top''), (''claim_scope'', JStr ''bounded_plic_top_only''),
                         (''not_whole_c910'', JBool True)]),
      (''screen'', JObj [(''screen_config_sha256'', JStr screen_config_digest)]),
      (''audit_hooks'', JObj (map (\<lambda>k. (k, JBool True)) HOOKS)),
      (''legs'', JObj [(leg, JObj [(''status'', JStr ''cap_out''), (''reason'', JStr reason),
                                   (''cap_seconds'', JInt cap_seconds)])])]"

section \<open>The contract\<close>

datatype ppa_problem =
    CustomerReady | StatusPromotes | NoTarget | WrongBoundary | WrongScope | WholeC910 | CustomerClaim
  | NoScreen | ScreenMismatch json string
  | SourceStale | SourceMismatch json
  | NoHooks | HookMissing string
  | CapSeconds string | CapReason string
  | CacheKeyStale string
  | TimingWording

fun iter_strings :: "json \<Rightarrow> string list" where
  "iter_strings (JStr s) = [s]"
| "iter_strings (JObj kvs) = concat (map (\<lambda>(k, v). iter_strings v) kvs)"
| "iter_strings (JArr xs) = concat (map iter_strings xs)"
| "iter_strings _ = []"

definition only_if :: "bool \<Rightarrow> 'a \<Rightarrow> 'a list" where
  "only_if b x = (if b then [x] else [])"

definition target_problems :: "obj \<Rightarrow> ppa_problem list" where
  "target_problems target =
     only_if (get target ''boundary_module'' \<noteq> JStr ''plic_top'') WrongBoundary @
     only_if (get target ''claim_scope'' \<noteq> JStr ''bounded_plic_top_only'') WrongScope @
     only_if (get target ''whole_c910'' = JBool True) WholeC910 @
     only_if (get target ''customer_claim'' = JBool True) CustomerClaim"

definition screen_problems :: "obj \<Rightarrow> string \<Rightarrow> ppa_problem list" where
  "screen_problems receipt expected =
     (case get receipt ''screen'' of
        JObj screen \<Rightarrow>
          let got = get screen ''screen_config_sha256'' in
          only_if (got \<noteq> JStr expected) (ScreenMismatch got expected)
      | _ \<Rightarrow> [NoScreen])"

definition source_problems :: "obj \<Rightarrow> obj option \<Rightarrow> ppa_problem list res" where
  "source_problems receipt source_manifest_data =
     (case source_manifest_data of None \<Rightarrow> Inr []
      | Some manifest \<Rightarrow>
          bind_res (source_manifest_sha256 manifest) (\<lambda>expected.
            Inr (only_if (get manifest ''source_manifest_sha256'' \<noteq> JStr expected) SourceStale @
                 only_if (get receipt ''source_manifest_sha256'' \<noteq> JStr expected)
                   (SourceMismatch (get receipt ''source_manifest_sha256'')))))"

definition hook_problems :: "obj \<Rightarrow> ppa_problem list" where
  "hook_problems receipt =
     (case get receipt ''audit_hooks'' of
        JObj hooks \<Rightarrow> concat (map (\<lambda>key. only_if (get hooks key \<noteq> JBool True) (HookMissing key)) HOOKS)
      | _ \<Rightarrow> [NoHooks])"

text \<open>\<open>isinstance(v, int)\<close>, which a bool also is, and \<open>v > 0\<close>.\<close>

definition positive_int :: "json \<Rightarrow> bool" where
  "positive_int v = (case v of JInt i \<Rightarrow> 0 < i | JBool b \<Rightarrow> b | _ \<Rightarrow> False)"

definition leg_problems :: "obj \<Rightarrow> ppa_problem list" where
  "leg_problems receipt =
     (case get_or (JObj []) receipt ''legs'' of
        JObj legs \<Rightarrow> concat (map (\<lambda>(name, leg).
          case leg of
            JObj kvs \<Rightarrow>
              if get kvs ''status'' = JStr ''cap_out'' then
                only_if (\<not> positive_int (get kvs ''cap_seconds'')) (CapSeconds name) @
                only_if (\<not> truthy (get kvs ''reason'')) (CapReason name)
              else []
          | _ \<Rightarrow> []) legs)
      | _ \<Rightarrow> [])"

definition expected_args :: "obj \<Rightarrow> string \<Rightarrow> string option \<Rightarrow> string \<Rightarrow> cache_args" where
  "expected_args receipt expected_screen overlay mode =
     \<lparr>ca_mode = mode, ca_boundary_scope = ''bounded_plic_top_only'',
      ca_source_manifest_digest = py_str (get receipt ''source_manifest_sha256''),
      ca_screen_config_digest = expected_screen,
      ca_selected_flow = py_str (get_or (JStr []) receipt ''selected_flow''),
      ca_toolchain_digest = py_str (get_or (JStr []) receipt ''toolchain_sha256''),
      ca_overlay_sha256 = (if mode = ''gate'' then overlay else None)\<rparr>"

definition cache_problems :: "obj \<Rightarrow> string \<Rightarrow> obj option \<Rightarrow> ppa_problem list" where
  "cache_problems receipt expected_screen cache_keys_data =
     (case cache_keys_data of None \<Rightarrow> []
      | Some keys \<Rightarrow>
          let overlay = (case get receipt ''overlay_sha256'' of JStr s \<Rightarrow> Some s | _ \<Rightarrow> None) in
          concat (map (\<lambda>mode.
            only_if (get keys mode \<noteq> JStr (cache_key (expected_args receipt expected_screen overlay mode)))
              (CacheKeyStale mode)) [''gold'', ''gate'']))"

definition wording_problems :: "obj \<Rightarrow> ppa_problem list" where
  "wording_problems receipt =
     concat (map (\<lambda>text. only_if (contains (lower text) ''timing slightly improves'') TimingWording)
       (iter_strings (JObj receipt)))"

definition head_problems :: "obj \<Rightarrow> ppa_problem list" where
  "head_problems receipt =
     (let status = py_str (get_or (JStr []) receipt ''status'') in
      only_if (get receipt ''customer_ready'' \<noteq> JBool False) CustomerReady @
      only_if (contains status ''promoted'' \<or> contains status ''customer_ready'') StatusPromotes)"

definition validate_receipt_contract ::
  "obj \<Rightarrow> obj \<Rightarrow> obj option \<Rightarrow> obj option \<Rightarrow> ppa_problem list res" where
  "validate_receipt_contract receipt screen_config source_manifest_data cache_keys_data =
     (case get receipt ''target'' of
        JObj target \<Rightarrow>
          let expected = screen_config_sha256 screen_config in
          bind_res (source_problems receipt source_manifest_data) (\<lambda>sources.
            Inr (head_problems receipt @ target_problems target @ screen_problems receipt expected @
                 sources @ hook_problems receipt @ leg_problems receipt @
                 cache_problems receipt expected cache_keys_data @ wording_problems receipt))
      | _ \<Rightarrow> Inr (head_problems receipt @ [NoTarget]))"

section \<open>The command\<close>

definition ppa_load_json :: "node \<Rightarrow> path \<Rightarrow> obj res" where
  "ppa_load_json fs p =
     bind_res (read_text_res fs p) (\<lambda>text.
       case json_loads text of
         None \<Rightarrow> Inl (ValueError (as_posix p))
       | Some (JObj kvs) \<Rightarrow> Inr kvs
       | Some _ \<Rightarrow> Inl (ValueError (as_posix p)))"

definition validate_package :: "node \<Rightarrow> path \<Rightarrow> ppa_problem list res" where
  "validate_package fs package =
     bind_res (ppa_load_json fs (package @ [''receipt.json''])) (\<lambda>receipt.
     bind_res (ppa_load_json fs (package @ [''screen_config.json''])) (\<lambda>screen.
     bind_res (ppa_load_json fs (package @ [''source_manifest.json''])) (\<lambda>source.
     bind_res (ppa_load_json fs (package @ [''cache_keys.json''])) (\<lambda>cache_keys.
       validate_receipt_contract receipt screen (Some source) (Some cache_keys)))))"

datatype ppa_output = Printed string | Failed "ppa_problem list" | Passed | Traceback py_error | Usage

definition ppa_main :: "node \<Rightarrow> path \<Rightarrow> bool \<Rightarrow> path option \<Rightarrow> nat \<times> ppa_output" where
  "ppa_main fs repo_root print_manifest check_package =
     (if print_manifest then
        (case source_manifest fs repo_root None of
           Inl e \<Rightarrow> (1, Traceback e)
         | Inr m \<Rightarrow> (0, Printed (json_dumps (indent_style 2) (sort_keys (JObj m)))))
      else (case check_package of
        Some package \<Rightarrow>
          (case validate_package fs package of
             Inl e \<Rightarrow> (1, Traceback e)
           | Inr problems \<Rightarrow> if problems \<noteq> [] then (1, Failed problems) else (0, Passed))
      | None \<Rightarrow> (2, Usage)))"

section \<open>Canonical JSON\<close>

lemma plain_sort_keys: "plain_json v \<Longrightarrow> plain_json (sort_keys v)"
proof (induction v rule: sort_keys.induct)
  case (2 kvs)
  let ?kvs = "map (\<lambda>(k, v). (k, sort_keys v)) kvs"
  have "mset (map fst (sort_key fst ?kvs)) = mset (map fst ?kvs)" by (simp only: mset_map mset_sort)
  also have "map fst ?kvs = map fst kvs" by (simp add: case_prod_unfold)
  finally have "distinct (map fst (sort_key fst ?kvs))"
    using "2.prems" mset_eq_imp_distinct_iff by (metis plain_json.simps(4))
  moreover have "\<forall>x\<in>set (sort_key fst ?kvs). case x of (k, v) \<Rightarrow> ascii k \<and> plain_json v"
    using "2.prems" "2.IH" by (auto simp: list_all_iff)
  ultimately show ?case by (simp add: list_all_iff)
qed (auto simp: list_all_iff)

lemma canonical_roundtrip: "plain_json d \<Longrightarrow> json_loads (canonical_json_bytes d) = Some (sort_keys d)"
  unfolding canonical_json_bytes_def
  by (rule loads_dumps) (simp_all add: styles_ok plain_sort_keys is_json_ws_def)

text \<open>Two objects with the same members, in any order, have the same sorted form.\<close>

lemma sort_keys_members:
  assumes "distinct (map fst kvs)" "mset kvs = mset kws"
  shows "sort_keys (JObj kvs) = sort_keys (JObj kws)"
proof -
  let ?f = "\<lambda>(k, v). (k, sort_keys v)"
  have "distinct (map fst (map ?f kvs))" using assms(1) by (simp add: case_prod_unfold comp_def)
  then have "inj_on fst (set (map ?f kvs))" by (metis distinct_map)
  moreover have "mset (map ?f kvs) = mset (map ?f kws)" using assms(2) by simp
  ultimately have "sort_key fst (map ?f kvs) = sort_key fst (map ?f kws)" by (intro sort_key_eq_sort_key)
  then show ?thesis by simp
qed

lemma sorted_members:
  "sort_keys (JObj kvs) = sort_keys (JObj kws) \<Longrightarrow>
     set (map (\<lambda>(k, v). (k, sort_keys v)) kvs) = set (map (\<lambda>(k, v). (k, sort_keys v)) kws)"
proof -
  assume "sort_keys (JObj kvs) = sort_keys (JObj kws)"
  then have "sort_key fst (map (\<lambda>(k, v). (k, sort_keys v)) kvs) = sort_key fst (map (\<lambda>(k, v). (k, sort_keys v)) kws)"
    by simp
  from arg_cong[OF this, of set] show ?thesis unfolding set_sort .
qed

lemma when_Nil [simp]: "only_if b x = [] \<longleftrightarrow> \<not> b"
  by (simp add: only_if_def)

definition ascii_args :: "cache_args \<Rightarrow> bool" where
  "ascii_args a \<longleftrightarrow>
     list_all ascii [ca_mode a, ca_boundary_scope a, ca_source_manifest_digest a, ca_screen_config_digest a,
       ca_selected_flow a, ca_toolchain_digest a, case ca_overlay_sha256 a of None \<Rightarrow> [] | Some s \<Rightarrow> s]"

lemma partial_status:
  "\<not> contains ''partial_receipt'' ''promoted''" "\<not> contains ''partial_receipt'' ''customer_ready''"
  by code_simp+

lemma fixed_wording:
  "\<not> contains (lower ''openc910.bounded_composed_ppa_attempt.v1'') ''timing slightly improves''"
  "\<not> contains (lower ''partial_receipt'') ''timing slightly improves''"
  "\<not> contains (lower ''plic_top'') ''timing slightly improves''"
  "\<not> contains (lower ''bounded_plic_top_only'') ''timing slightly improves''"
  "\<not> contains (lower ''cap_out'') ''timing slightly improves''"
  by code_simp+

lemma digest_wording: "\<not> contains (sha256 b) ''timing slightly improves''"
proof
  assume "contains (sha256 b) ''timing slightly improves''"
  then have "CHR '' '' \<in> set (sha256 b)" by (auto simp: contains_iff)
  then show False using sha256_no_space[of "CHR '' ''"] by (simp add: char_class_defs)
qed

subsection \<open>The order of the sources\<close>

lemma map_res_paths:
  "map_res item_path xs = Inr (map JStr ps) \<longleftrightarrow>
     (\<forall>i\<in>set xs. item_path i = Inr (JStr (str_key (projr (item_path i))))) \<and>
     ps = map (\<lambda>i. str_key (projr (item_path i))) xs"
  by (induction xs arbitrary: ps) (auto simp: bind_res_eq_Inr str_key_def Cons_eq_map_conv split: sum.splits)

lemma sort_items_strings:
  assumes "map_res item_path xs = Inr (map JStr ps)"
  shows "sort_items xs = Inr (map snd (sort_key (\<lambda>(p, _). str_key p) (zip (map JStr ps) xs)))"
proof -
  have "length ps = length xs" using assms unfolding map_res_paths by simp
  then have "length xs \<le> 1 \<Longrightarrow> map snd (sort_key (\<lambda>(p, _). str_key p) (zip (map JStr ps) xs)) = xs"
    by (cases xs; cases ps) auto
  then show ?thesis using assms by (simp add: sort_items_def list_all_iff is_str_def Let_def)
qed

lemma sort_items_order_free:
  assumes "mset xs = mset ys" "map_res item_path xs = Inr (map JStr ps)" "distinct ps"
  shows "sort_items xs = sort_items ys"
proof -
  let ?p = "\<lambda>i. str_key (projr (item_path i))"
  have set: "set xs = set ys" using assms(1) by (rule mset_eq_setD)
  have ps: "ps = map ?p xs" and all: "\<forall>i\<in>set xs. item_path i = Inr (JStr (?p i))"
    using assms(2) unfolding map_res_paths by auto
  have ys: "map_res item_path ys = Inr (map JStr (map ?p ys))"
    using all set unfolding map_res_paths by simp
  have z: "zip (map JStr (map ?p zs)) zs = map (\<lambda>i. (JStr (?p i), i)) zs" for zs
    by (induction zs) auto
  have "mset (zip (map JStr ps) xs) = mset (zip (map JStr (map ?p ys)) ys)"
    unfolding ps z using assms(1) by simp
  moreover have "inj_on (\<lambda>(p, _). str_key p) (set (zip (map JStr ps) xs))"
    using assms(3) unfolding ps z by (auto simp: inj_on_def distinct_map str_key_def)
  ultimately show ?thesis
    unfolding sort_items_strings[OF assms(2)] sort_items_strings[OF ys]
    by (metis sort_key_eq_sort_key)
qed

subsection \<open>What a conforming package says\<close>

definition capped_legs_named :: "obj \<Rightarrow> bool" where
  "capped_legs_named legs \<longleftrightarrow>
     (\<forall>(name, leg)\<in>set legs. \<forall>kvs. leg = JObj kvs \<and> get kvs ''status'' = JStr ''cap_out'' \<longrightarrow>
        positive_int (get kvs ''cap_seconds'') \<and> truthy (get kvs ''reason''))"

text \<open>A receipt for a screen, a source manifest and cache keys: no promotion, bounded to \<^verbatim>\<open>plic_top\<close>,
  and every digest it or its companions state is the one computed from the documents.\<close>

definition bounded_receipt :: "obj \<Rightarrow> obj \<Rightarrow> obj \<Rightarrow> obj \<Rightarrow> bool" where
  "bounded_receipt r screen source keys \<longleftrightarrow>
     get r ''customer_ready'' = JBool False \<and>
     (let status = py_str (get_or (JStr []) r ''status'') in
        \<not> contains status ''promoted'' \<and> \<not> contains status ''customer_ready'') \<and>
     (\<exists>target. get r ''target'' = JObj target \<and> get target ''boundary_module'' = JStr ''plic_top'' \<and>
        get target ''claim_scope'' = JStr ''bounded_plic_top_only'' \<and>
        get target ''whole_c910'' \<noteq> JBool True \<and> get target ''customer_claim'' \<noteq> JBool True) \<and>
     (\<exists>s. get r ''screen'' = JObj s \<and> get s ''screen_config_sha256'' = JStr (screen_config_sha256 screen)) \<and>
     (\<exists>d. source_manifest_sha256 source = Inr d \<and> get source ''source_manifest_sha256'' = JStr d \<and>
        get r ''source_manifest_sha256'' = JStr d \<and>
        get keys ''gold'' = JStr (cache_key (expected_args r (screen_config_sha256 screen) None ''gold'')) \<and>
        get keys ''gate'' = JStr (cache_key (expected_args r (screen_config_sha256 screen)
          (case get r ''overlay_sha256'' of JStr s \<Rightarrow> Some s | _ \<Rightarrow> None) ''gate''))) \<and>
     (\<exists>hooks. get r ''audit_hooks'' = JObj hooks \<and> (\<forall>key\<in>set HOOKS. get hooks key = JBool True)) \<and>
     (\<forall>legs. get_or (JObj []) r ''legs'' = JObj legs \<longrightarrow> capped_legs_named legs) \<and>
     (\<forall>text\<in>set (iter_strings (JObj r)). \<not> contains (lower text) ''timing slightly improves'')"

lemma leg_problems_Nil:
  "leg_problems r = [] \<longleftrightarrow> (\<forall>legs. get_or (JObj []) r ''legs'' = JObj legs \<longrightarrow> capped_legs_named legs)"
  unfolding leg_problems_def capped_legs_named_def
  by (cases "get_or (JObj []) r ''legs''")
    (auto simp: concat_map_Nil_iff split: json.splits if_splits prod.splits)

lemma cache_problems_Nil:
  "cache_problems r d (Some keys) = [] \<longleftrightarrow>
     get keys ''gold'' = JStr (cache_key (expected_args r d None ''gold'')) \<and>
     get keys ''gate'' = JStr (cache_key (expected_args r d
       (case get r ''overlay_sha256'' of JStr s \<Rightarrow> Some s | _ \<Rightarrow> None) ''gate''))"
  by (simp add: cache_problems_def Let_def expected_args_def)

lemma contract_Nil:
  "validate_receipt_contract r screen (Some source) (Some keys) = Inr [] \<longleftrightarrow> bounded_receipt r screen source keys"
proof (cases "get r ''target''")
  case (JObj target)
  have "hook_problems r = [] \<longleftrightarrow>
      (\<exists>hooks. get r ''audit_hooks'' = JObj hooks \<and> (\<forall>key\<in>set HOOKS. get hooks key = JBool True))"
    by (auto simp: hook_problems_def concat_map_Nil_iff split: json.splits)
  moreover have "screen_problems r (screen_config_sha256 screen) = [] \<longleftrightarrow>
      (\<exists>s. get r ''screen'' = JObj s \<and> get s ''screen_config_sha256'' = JStr (screen_config_sha256 screen))"
    by (auto simp: screen_problems_def Let_def split: json.splits)
  moreover have "wording_problems r = [] \<longleftrightarrow>
      (\<forall>text\<in>set (iter_strings (JObj r)). \<not> contains (lower text) ''timing slightly improves'')"
    by (simp add: wording_problems_def concat_map_Nil_iff)
  ultimately show ?thesis
    unfolding validate_receipt_contract_def bounded_receipt_def source_problems_def
    by (auto simp: JObj Let_def bind_res_eq_Inr head_problems_def target_problems_def leg_problems_Nil
        cache_problems_Nil)
qed (auto simp: validate_receipt_contract_def bounded_receipt_def)

section \<open>Properties\<close>


text \<open>C28: the bytes hashed for a cache key determine every argument of the key (for ASCII
  arguments): mode, scope, source and screen digests, flow, toolchain and the overlay or its
  absence.\<close>

theorem cache_key_binds_arguments:
  assumes "ascii_args a" "ascii_args b"
  shows "canonical_json_bytes (cache_doc a) = canonical_json_bytes (cache_doc b) \<longleftrightarrow> a = b"
proof
  assume eq: "canonical_json_bytes (cache_doc a) = canonical_json_bytes (cache_doc b)"
  have "plain_json (cache_doc a)" "plain_json (cache_doc b)"
    using assms by (auto simp: ascii_args_def cache_doc_def opt_str_def ascii_def split: option.splits)
  with eq have "sort_keys (cache_doc a) = sort_keys (cache_doc b)"
    using canonical_roundtrip by (metis option.inject)
  moreover obtain kvs kws where docs: "cache_doc a = JObj kvs" "cache_doc b = JObj kws"
    unfolding cache_doc_def by blast
  ultimately have "set (map (\<lambda>(k, v). (k, sort_keys v)) kvs) \<subseteq> set (map (\<lambda>(k, v). (k, sort_keys v)) kws)"
    using sorted_members[of kvs kws] by simp
  then show "a = b"
    using docs unfolding cache_doc_def by (cases a; cases b) (auto simp: opt_str_def split: option.splits)
qed simp

text \<open>The receipt the harness writes for a leg that ran into its cap conforms to the contract for
  its screen exactly when the cap is positive, the reason is not empty and does not use the barred
  wording.\<close>

theorem partial_receipt_conforms:
  "validate_receipt_contract
     (named_partial_receipt leg reason cap (screen_config_sha256 screen)) screen None None = Inr []
   \<longleftrightarrow> 0 < cap \<and> reason \<noteq> [] \<and> \<not> contains (lower reason) ''timing slightly improves''"
proof -
  let ?digest = "screen_config_sha256 screen" let ?r = "named_partial_receipt leg reason cap ?digest"
  have "head_problems ?r = []" "hook_problems ?r = []" "screen_problems ?r ?digest = []"
    by (simp_all add: head_problems_def hook_problems_def screen_problems_def named_partial_receipt_def HOOKS_def
        partial_status)
  moreover have "get ?r ''target'' = JObj [(''boundary_module'', JStr ''plic_top''),
      (''claim_scope'', JStr ''bounded_plic_top_only''), (''not_whole_c910'', JBool True)]"
    by (simp add: named_partial_receipt_def)
  moreover have "leg_problems ?r = [] \<longleftrightarrow> 0 < cap \<and> reason \<noteq> []"
    by (auto simp: leg_problems_def named_partial_receipt_def positive_int_def truthy_def)
  moreover have "wording_problems ?r = [] \<longleftrightarrow> \<not> contains (lower reason) ''timing slightly improves''"
    by (simp add: wording_problems_def named_partial_receipt_def HOOKS_def concat_map_Nil_iff fixed_wording
        digest_wording screen_config_sha256_def canonical_json_sha256_def)
  ultimately show ?thesis
    by (simp add: validate_receipt_contract_def source_problems_def cache_problems_def target_problems_def)
qed

text \<open>C35: a manifest the harness has generated carries its own digest, and digesting it again, with
  that entry in it, gives the same.\<close>

theorem manifest_digest_stable:
  assumes "source_manifest fs repo_root overlay = Inr m"
  shows "source_manifest_sha256 m = Inr (str_key (get m ''source_manifest_sha256''))"
proof -
  from assms obtain sources sha where
    m: "m = manifest_base sources overlay @ [(''source_manifest_sha256'', JStr sha)]"
    and sha: "source_manifest_sha256 (manifest_base sources overlay) = Inr sha"
    by (auto simp: source_manifest_def bind_res_eq_Inr Let_def)
  have "source_manifest_sha256 m = source_manifest_sha256 (manifest_base sources overlay)"
    by (simp add: m source_manifest_sha256_def manifest_base_def split: option.split)
  moreover have "get m ''source_manifest_sha256'' = JStr sha"
    by (simp add: m manifest_base_def split: option.split)
  ultimately show ?thesis by (simp add: sha str_key_def)
qed

text \<open>C21: the check of a package exits 0 exactly when its four documents load and the receipt is
  bounded by them: no promotion, and the screen, source and cache digests those of the documents.\<close>

theorem package_check_exact:
  "fst (ppa_main fs repo_root False (Some package)) = 0 \<longleftrightarrow>
     (\<exists>receipt screen source keys.
        ppa_load_json fs (package @ [''receipt.json'']) = Inr receipt \<and>
        ppa_load_json fs (package @ [''screen_config.json'']) = Inr screen \<and>
        ppa_load_json fs (package @ [''source_manifest.json'']) = Inr source \<and>
        ppa_load_json fs (package @ [''cache_keys.json'']) = Inr keys \<and>
        bounded_receipt receipt screen source keys)"
proof -
  have "fst (ppa_main fs repo_root False (Some package)) = 0 \<longleftrightarrow> validate_package fs package = Inr []"
    by (cases "validate_package fs package") (auto simp: ppa_main_def)
  then show ?thesis by (simp add: validate_package_def bind_res_eq_Inr contract_Nil)
qed

text \<open>The digest of a source manifest does not depend on the order its sources are listed in, when
  their paths are distinct strings.\<close>

theorem manifest_digest_order_free:
  assumes "get_or (JArr []) m ''sources'' = JArr xs" "get_or (JArr []) m' ''sources'' = JArr ys"
    and "mset xs = mset ys" "map_res item_path xs = Inr (map JStr ps)" "distinct ps"
    and "\<forall>k\<in>set [''schema'', ''target'', ''gate_overlay'']. get m' k = get m k"
  shows "source_manifest_sha256 m' = source_manifest_sha256 m"
proof -
  have "sort_items ys = sort_items xs" using assms(3-5) by (intro sort_items_order_free[symmetric])
  with assms show ?thesis by (simp add: source_manifest_sha256_def sorted_sources_def)
qed

section \<open>Witnesses\<close>


definition demo_args :: "string \<Rightarrow> string option \<Rightarrow> cache_args" where
  "demo_args mode overlay =
     \<lparr>ca_mode = mode, ca_boundary_scope = ''bounded_plic_top_only'', ca_source_manifest_digest = ''00'',
      ca_screen_config_digest = ''01'', ca_selected_flow = ''abc'', ca_toolchain_digest = ''02'',
      ca_overlay_sha256 = overlay\<rparr>"

theorem cache_key_binds_arguments_witness:
  "canonical_json_bytes (cache_doc (demo_args ''gate'' None)) \<noteq> canonical_json_bytes (cache_doc (demo_args ''gate'' (Some [])))"
  by (subst cache_key_binds_arguments) (simp_all add: demo_args_def ascii_args_def ascii_def)

definition demo_sources :: node where
  "demo_sources =
     (let dir = (\<lambda>names. Dir [(''rtl'', Dir (map (\<lambda>n. (n, File [])) names))]) in
      Dir [(''C910_RTL_FACTORY'', Dir [(''gen_rtl'', Dir
        [(''cpu'', dir [''cpu_cfig.h'']), (''clk'', dir [''gated_clk_cell.v'']),
         (''common'', dir [''sync_level2level.v'', ''sync_level2pulse.v'']),
         (''plic'', dir [''csky_apb_1tox_matrix.v'', ''plic_32to1_arb.v'', ''plic_arb_ctrl.v'', ''plic_ctrl.v'',
            ''plic_granu2_arb.v'', ''plic_granu_arb.v'', ''plic_hart_arb.v'', ''plic_hreg_busif.v'',
            ''plic_int_kid.v'', ''plic_kid_busif.v'', ''plic_top.v''])])])])"

lemma demo_sources_read:
  "list_all (\<lambda>rel. read_bytes demo_sources (join_path [] rel) = Some []) PLIC_TOP_SOURCE_PATHS"
  by code_simp

lemma demo_manifest: "\<exists>m. source_manifest demo_sources [] None = Inr m"
proof -
  let ?item = "\<lambda>rel. JObj [(''path'', JStr rel), (''role'', JStr (source_role rel)), (''sha256'', JStr (sha256 []))]"
  have "map_res (source_entry demo_sources []) rels = Inr (map ?item rels)"
    if "list_all (\<lambda>rel. read_bytes demo_sources (join_path [] rel) = Some []) rels" for rels
    using that by (induction rels) (auto simp: source_entry_def)
  from this[OF demo_sources_read] have
    entries: "map_res (source_entry demo_sources []) PLIC_TOP_SOURCE_PATHS = Inr (map ?item PLIC_TOP_SOURCE_PATHS)" .
  have "map_res item_path (map ?item rels) = Inr (map JStr rels)" for rels
    by (induction rels) (auto simp: item_path_def)
  from sort_items_strings[OF this] show ?thesis
    by (simp add: source_manifest_def entries Let_def source_manifest_sha256_def manifest_base_def sorted_sources_def)
qed

theorem manifest_digest_stable_witness:
  "\<exists>m. source_manifest demo_sources [] None = Inr m \<and>
     source_manifest_sha256 m = Inr (str_key (get m ''source_manifest_sha256''))"
  using demo_manifest manifest_digest_stable by blast

definition demo_item :: "string \<Rightarrow> json" where
  "demo_item p = JObj [(''path'', JStr p)]"

theorem manifest_digest_order_free_witness:
  "source_manifest_sha256 [(''sources'', JArr [demo_item ''b'', demo_item ''a''])] =
   source_manifest_sha256 [(''sources'', JArr [demo_item ''a'', demo_item ''b''])]"
  by (rule manifest_digest_order_free[where ps = "[''a'', ''b'']" and xs = "[demo_item ''a'', demo_item ''b'']"
        and ys = "[demo_item ''b'', demo_item ''a'']"])
    (simp_all add: demo_item_def item_path_def)

end
