(* ===== verification/Replay.thy ===== *)
theory Replay
  imports ReplayEnv JsonText Sha256
begin

text \<open>
  \<^verbatim>\<open>src/athanor/replay_public_receipt.py\<close>: resolving and verifying the pinned tools, clearing stale
  output, running a package's \<^verbatim>\<open>replay.sh\<close> and classifying how it ended.

  What lies outside the process is the record \<open>world\<close>: the environment variables, the directories,
  \<open>os.access\<close>, a tool's answer to its version flag, \<open>shutil.which\<close>, and the run of the script,
  which may change the file tree. The tree is the state, threaded through the calls. An error message
  is the data it carries. \<open>rmtree\<close> is taken to succeed; the Liberty name in the glob stands for
  itself.
\<close>

section \<open>The world and the errors\<close>

text \<open>A resolved tool: its variable, the text of its path, and its identity. A relative path means one
  thing to this process and another to the script, which runs in the package's directory.\<close>

type_synonym resolved = "(string \<times> string \<times> string) list"

record world =
  w_env :: "string \<Rightarrow> string option"
  w_cwd :: path
  w_home :: path
  w_repo :: path
  w_executable :: "node \<Rightarrow> path \<Rightarrow> bool"
  w_version :: "node \<Rightarrow> path \<Rightarrow> string \<Rightarrow> (string \<times> string) option"
  w_which :: "string \<Rightarrow> string option"
  w_run :: "node \<Rightarrow> path \<Rightarrow> string \<Rightarrow> resolved \<Rightarrow> (int \<times> str \<times> str) option \<times> node"

datatype provisioning =
    NotExecutable string string string
  | WrongVersion string string string string string
  | NotAFile string string
  | WrongDigest string string string string
  | NotLocated string
  | NoPolicy

datatype replay_error = Provisioning provisioning | Raised py_error

type_synonym 'a resolves = "replay_error + 'a"

definition bind_rep :: "'a resolves \<Rightarrow> ('a \<Rightarrow> 'b resolves) \<Rightarrow> 'b resolves" where
  "bind_rep m f = (case m of Inl e \<Rightarrow> Inl e | Inr x \<Rightarrow> f x)"

definition raising :: "'a res \<Rightarrow> 'a resolves" where
  "raising m = (case m of Inl e \<Rightarrow> Inl (Raised e) | Inr x \<Rightarrow> Inr x)"

definition artifact_root :: "world \<Rightarrow> path" where
  "artifact_root w = w_repo w @ [''athanor_artifacts'']"

definition POLICY_PATH :: "world \<Rightarrow> path" where
  "POLICY_PATH w = w_repo w @ [''athanor'', ''toolchain_policy.json'']"

definition load_policy :: "world \<Rightarrow> node \<Rightarrow> json resolves" where
  "load_policy w fs =
     (case read_text fs (POLICY_PATH w) of
        None \<Rightarrow> if exists_path fs (POLICY_PATH w) then Inl (Raised (ValueError ''policy''))
                else Inl (Provisioning NoPolicy)
      | Some text \<Rightarrow> (case json_loads text of
          None \<Rightarrow> Inl (Raised (ValueError ''policy'')) | Some policy \<Rightarrow> Inr policy))"

definition as_str :: "json \<Rightarrow> string res" where
  "as_str v = (case v of JStr s \<Rightarrow> Inr s | _ \<Rightarrow> Inl TypeError)"

definition run_version :: "world \<Rightarrow> node \<Rightarrow> path \<Rightarrow> string \<Rightarrow> string" where
  "run_version w fs binary flag =
     (case w_version w fs binary flag of None \<Rightarrow> []
      | Some (out, err) \<Rightarrow>
          (case splitlines (strip (out @ err)) of [] \<Rightarrow> [] | l # _ \<Rightarrow> strip l))"

definition tool_path :: "world \<Rightarrow> string \<Rightarrow> path" where
  "tool_path w s = join_path (w_cwd w) s"

definition abs_text :: "path \<Rightarrow> string" where
  "abs_text p = CHR ''/'' # as_posix p"

text \<open>\<open>a / b\<close>, on texts.\<close>

definition under :: "string \<Rightarrow> string \<Rightarrow> string" where
  "under a b = (if is_absolute b then b else a @ ''/'' @ b)"

text \<open>An environment variable that is set and not empty.\<close>

definition env_value :: "world \<Rightarrow> string \<Rightarrow> string option" where
  "env_value w name = (case w_env w name of Some v \<Rightarrow> if v = [] then None else Some v | None \<Rightarrow> None)"

section \<open>Yosys\<close>

definition oss_cad_roots :: "world \<Rightarrow> string list" where
  "oss_cad_roots w =
     (case env_value w ''OSS_CAD_ROOT'' of Some r \<Rightarrow> [r] | None \<Rightarrow> []) @
     map abs_text
       [butlast (w_repo w) @ [''_tools''], w_home w @ [''_tools''], w_home w, [''opt'', ''_tools''], [''opt'']]"

definition verify_yosys :: "world \<Rightarrow> node \<Rightarrow> json \<Rightarrow> string \<Rightarrow> string \<Rightarrow> (string \<times> string) resolves" where
  "verify_yosys w fs want_version origin binary =
     (if \<not> is_file fs (tool_path w binary) \<or> \<not> w_executable w fs (tool_path w binary)
      then Inl (Provisioning (NotExecutable ''YOSYS_BIN'' origin binary))
      else (let got = run_version w fs (tool_path w binary) ''-V'' in
        bind_rep (raising (as_str want_version)) (\<lambda>want.
          if \<not> startswith got want
          then Inl (Provisioning (WrongVersion ''YOSYS_BIN'' origin binary got want))
          else Inr (binary, got))))"

text \<open>The candidate a root offers for the suite: below it, or the root itself.\<close>

definition suite_candidate :: "world \<Rightarrow> node \<Rightarrow> string \<Rightarrow> string \<Rightarrow> string option" where
  "suite_candidate w fs suite base =
     (if is_file fs (tool_path w (under (under base suite) ''bin/yosys''))
      then Some (under (under base suite) ''bin/yosys'')
      else if path_name (path_parts base) = suite \<and> is_file fs (tool_path w (under base ''bin/yosys''))
      then Some (under base ''bin/yosys'')
      else None)"

definition resolve_yosys :: "world \<Rightarrow> node \<Rightarrow> json \<Rightarrow> (string \<times> string) resolves" where
  "resolve_yosys w fs policy =
     bind_rep (raising (bind_res (subscript policy ''selected_tools'') (\<lambda>t. subscript t ''yosys''))) (\<lambda>spec.
     bind_rep (raising (subscript spec ''version'')) (\<lambda>want_version.
     bind_rep (raising (subscript spec ''source'')) (\<lambda>source.
       case env_value w ''YOSYS_BIN'' of
         Some b \<Rightarrow> verify_yosys w fs want_version ''from the environment'' b
       | None \<Rightarrow>
           bind_rep (raising (as_str source)) (\<lambda>suite.
             case List.map_filter (suite_candidate w fs suite) (oss_cad_roots w) of
               cand # _ \<Rightarrow> verify_yosys w fs want_version ''auto-resolved from the pinned suite'' cand
             | [] \<Rightarrow> Inl (Provisioning (NotLocated ''yosys''))))))"

section \<open>OpenSTA\<close>

definition verify_sta :: "world \<Rightarrow> node \<Rightarrow> json \<Rightarrow> string \<Rightarrow> string \<Rightarrow> (string \<times> string) resolves" where
  "verify_sta w fs want_version origin binary =
     (if \<not> is_file fs (tool_path w binary) \<or> \<not> w_executable w fs (tool_path w binary)
      then Inl (Provisioning (NotExecutable ''STA_BIN'' origin binary))
      else (let got = run_version w fs (tool_path w binary) ''-version'';
                shown = (if got = [] then ''(version unavailable)'' else got) in
        if \<not> truthy want_version then Inr (binary, shown)
        else bind_rep (raising (as_str want_version)) (\<lambda>want.
          if \<not> contains got want
          then Inl (Provisioning (WrongVersion ''STA_BIN'' origin binary got want))
          else Inr (binary, shown))))"

definition STA_VARS :: "string list" where
  "STA_VARS = [''STA_BIN'', ''OPENSTA'', ''OPENSTA_BIN'']"

definition sta_on_path :: "world \<Rightarrow> string list" where
  "sta_on_path w =
     filter ((\<noteq>) []) (List.map_filter id [w_which w ''sta'', w_which w ''OpenSTA'', Some ''/usr/local/bin/sta''])"

definition resolve_sta :: "world \<Rightarrow> node \<Rightarrow> json \<Rightarrow> (string \<times> string) resolves" where
  "resolve_sta w fs policy =
     bind_rep (raising (bind_res (subscript policy ''selected_tools'') (\<lambda>t. get_attr t ''opensta'' (JObj [])))) (\<lambda>spec.
     bind_rep (raising (get_attr spec ''version'' JNull)) (\<lambda>want_version.
       case List.map_filter (\<lambda>name. map_option (\<lambda>v. (name, v)) (env_value w name)) STA_VARS of
         (name, v) # _ \<Rightarrow> verify_sta w fs want_version (''from $'' @ name) v
       | [] \<Rightarrow>
           (case filter (\<lambda>c. is_file fs (tool_path w c)) (sta_on_path w) of
              c # _ \<Rightarrow> verify_sta w fs want_version ''auto-resolved from PATH'' c
            | [] \<Rightarrow> Inl (Provisioning (NotLocated ''sta'')))))"

section \<open>Liberty\<close>

definition verify_liberty :: "world \<Rightarrow> node \<Rightarrow> json \<Rightarrow> string \<Rightarrow> string \<Rightarrow> (string \<times> string) resolves" where
  "verify_liberty w fs want_sha origin lib =
     (case read_bytes fs (tool_path w lib) of
        None \<Rightarrow> Inl (Provisioning (NotAFile origin lib))
      | Some b \<Rightarrow>
          let got = sha256 b in
          if truthy want_sha \<and> JStr got \<noteq> want_sha
          then Inl (Provisioning (WrongDigest origin lib got (py_str want_sha)))
          else Inr (lib, take 12 got))"

text \<open>\<open>sorted(base.glob("*/src/*/data/liberty/" + name))\<close>, the files among them.\<close>

definition liberty_candidates :: "node \<Rightarrow> string \<Rightarrow> path \<Rightarrow> string list" where
  "liberty_candidates fs name base =
     map abs_text (filter (is_file fs)
       (concat (map (\<lambda>a. map (\<lambda>b. base @ [a, ''src'', b, ''data'', ''liberty'', name])
           (sort (map fst (list_dir fs (base @ [a, ''src''])))))
         (sort (map fst (list_dir fs base))))))"

definition resolve_liberty :: "world \<Rightarrow> node \<Rightarrow> json \<Rightarrow> (string \<times> string) resolves" where
  "resolve_liberty w fs policy =
     bind_rep (raising (bind_res (subscript policy ''selected_tools'') (\<lambda>t. subscript t ''liberty''))) (\<lambda>spec.
     bind_rep (raising (subscript spec ''name'')) (\<lambda>name.
     bind_rep (raising (get_attr spec ''sha256'' JNull)) (\<lambda>want_sha.
       case env_value w ''LIBERTY'' of
         Some l \<Rightarrow> verify_liberty w fs want_sha ''from the environment'' l
       | None \<Rightarrow>
      (case env_value w ''LIBERTY_ROOT'' of
         Some r \<Rightarrow>
           bind_rep (raising (as_str name)) (\<lambda>n.
             verify_liberty w fs want_sha ''from $LIBERTY_ROOT'' (under r n))
       | None \<Rightarrow>
           (case concat (map (liberty_candidates fs (py_str name)) [butlast (w_repo w), w_home w]) of
              cand # _ \<Rightarrow> verify_liberty w fs want_sha ''auto-resolved from a co-located SDK'' cand
            | [] \<Rightarrow> Inl (Provisioning (NotLocated ''liberty'')))))))"

section \<open>Running a package\<close>

definition required_tool_vars :: "str \<Rightarrow> string list" where
  "required_tool_vars replay_text = filter (used_var replay_text) [''YOSYS_BIN'', ''STA_BIN'', ''LIBERTY'']"

definition resolver :: "string \<Rightarrow> world \<Rightarrow> node \<Rightarrow> json \<Rightarrow> (string \<times> string) resolves" where
  "resolver var =
     (if var = ''YOSYS_BIN'' then resolve_yosys else if var = ''STA_BIN'' then resolve_sta else resolve_liberty)"

fun resolve_env :: "world \<Rightarrow> node \<Rightarrow> json \<Rightarrow> string list \<Rightarrow> resolved resolves" where
  "resolve_env w fs policy [] = Inr []"
| "resolve_env w fs policy (var # vars) =
     bind_rep (resolver var w fs policy) (\<lambda>(p, ident).
     bind_rep (resolve_env w fs policy vars) (\<lambda>rest. Inr ((var, p, ident) # rest)))"

text \<open>\<open>len(text)\<close>, counting code points.\<close>

definition num_points :: "str \<Rightarrow> nat" where
  "num_points s = length (filter (\<lambda>c. \<not> in_byte 0x80 0xBF c) s)"

text \<open>The loop over the logs: each cut at \<open>cap\<close>, none read after the ceiling is reached.\<close>

fun log_chunks :: "nat \<Rightarrow> nat \<Rightarrow> str option list \<Rightarrow> str list" where
  "log_chunks cap got [] = []"
| "log_chunks cap got (None # rest) = log_chunks cap got rest"
| "log_chunks cap got (Some text # rest) =
     take_points cap text #
       (if cap * 8 \<le> got + num_points text then [] else log_chunks cap (got + num_points text) rest)"

definition CAP :: nat where
  "CAP = 65536"

definition read_replay_out_logs :: "node \<Rightarrow> path \<Rightarrow> str" where
  "read_replay_out_logs fs out_dir =
     (if \<not> is_dir fs out_dir then []
      else join [NL] (log_chunks CAP 0 (map (\<lambda>name. read_text_replace fs (out_dir @ [name]))
        (sort (filter (\<lambda>name. endswith name ''.log'') (map fst (list_dir fs out_dir)))))))"

definition TOOL_SIGNATURES :: "string list" where
  "TOOL_SIGNATURES =
     [''Assert `'', ''Segmentation fault'', ''core dumped'', ''terminate called'', ''Stack dump'',
      ''command not found'', ''cannot execute'', ''No such file or directory'']"

datatype outcome =
    NoReplayScript
  | ProvisioningFailed provisioning
  | LaunchFailed resolved
  | Reproduced resolved
  | ToolCrashed resolved int
  | VerdictRed resolved int

fun outcome_code :: "outcome \<Rightarrow> nat" where
  "outcome_code NoReplayScript = 3"
| "outcome_code (ProvisioningFailed _) = 3"
| "outcome_code (LaunchFailed _) = 2"
| "outcome_code (Reproduced _) = 0"
| "outcome_code (ToolCrashed _ _) = 2"
| "outcome_code (VerdictRed _ _) = 1"

text \<open>The tree after stale output has been cleared.\<close>

definition clear_output :: "node \<Rightarrow> path \<Rightarrow> node" where
  "clear_output fs pkg =
     (if is_dir fs (pkg @ [''replay_out'']) then remove_path fs (resolve (pkg @ [''replay_out''])) else fs)"

definition classify :: "node \<Rightarrow> path \<Rightarrow> resolved \<Rightarrow> (int \<times> str \<times> str) option \<Rightarrow> outcome" where
  "classify fs pkg tools run =
     (case run of None \<Rightarrow> LaunchFailed tools
      | Some (code, out, err) \<Rightarrow>
          if code = 0 then Reproduced tools
          else (let blob = out @ err @ read_replay_out_logs fs (pkg @ [''replay_out'']) in
            if list_ex (contains blob) TOOL_SIGNATURES then ToolCrashed tools code
            else VerdictRed tools code))"

text \<open>\<open>pkg\<close> is the directory the script is run in, \<open>script\<close> the text of its path that \<^verbatim>\<open>bash\<close> is given.\<close>

definition replay_package :: "world \<Rightarrow> node \<Rightarrow> path \<Rightarrow> string \<Rightarrow> json \<Rightarrow> (py_error + outcome) \<times> node" where
  "replay_package w fs pkg script policy =
     (if \<not> is_file fs (pkg @ [''replay.sh'']) then (Inr NoReplayScript, fs)
      else (let fs1 = clear_output fs pkg in
        case read_text_res fs1 (pkg @ [''replay.sh'']) of
          Inl e \<Rightarrow> (Inl e, fs1)
        | Inr text \<Rightarrow>
       (case resolve_env w fs1 policy (required_tool_vars text) of
          Inl (Provisioning e) \<Rightarrow> (Inr (ProvisioningFailed e), fs1)
        | Inl (Raised e) \<Rightarrow> (Inl e, fs1)
        | Inr tools \<Rightarrow>
            (case w_run w fs1 pkg script tools of (run, fs2) \<Rightarrow> (Inr (classify fs2 pkg tools run), fs2)))))"

section \<open>The command\<close>

definition packages :: "world \<Rightarrow> node \<Rightarrow> path list" where
  "packages w fs =
     map (\<lambda>k. artifact_root w @ [k])
       (filter (\<lambda>k. exists_path fs (artifact_root w @ [k, ''replay.sh'']))
         (sort (map fst (list_dir fs (artifact_root w)))))"

datatype replay_args = ListPackages | PrintEnv | ReplayAll | ReplayOne string | NoPackage

text \<open>Exit code, the outcomes reported and the tree; an exception nothing catches ends with code 1.\<close>

type_synonym replay_end = "nat \<times> outcome list \<times> node"

fun replay_all :: "world \<Rightarrow> json \<Rightarrow> path list \<Rightarrow> nat \<Rightarrow> outcome list \<Rightarrow> node \<Rightarrow> replay_end" where
  "replay_all w policy [] worst seen fs = (worst, seen, fs)"
| "replay_all w policy (pkg # pkgs) worst seen fs =
     (case replay_package w fs pkg (abs_text (pkg @ [''replay.sh''])) policy of
        (Inl e, fs') \<Rightarrow> (1, seen, fs')
      | (Inr oc, fs') \<Rightarrow>
          replay_all w policy pkgs (if outcome_code oc \<noteq> 0 then max worst (outcome_code oc) else worst)
            (seen @ [oc]) fs')"

definition package_path :: "world \<Rightarrow> node \<Rightarrow> string \<Rightarrow> path" where
  "package_path w fs s =
     (if is_dir fs (tool_path w s) then tool_path w s else join_path (artifact_root w) s)"

definition package_script :: "world \<Rightarrow> node \<Rightarrow> string \<Rightarrow> string" where
  "package_script w fs s =
     (if is_dir fs (tool_path w s) then under s ''replay.sh''
      else abs_text (join_path (artifact_root w) s @ [''replay.sh'']))"

definition replay_main :: "world \<Rightarrow> node \<Rightarrow> replay_args \<Rightarrow> replay_end" where
  "replay_main w fs args =
     (if args = ListPackages then (0, [], fs)
      else (case load_policy w fs of
        Inl e \<Rightarrow> (1, [], fs)
      | Inr policy \<Rightarrow>
          (case args of
             PrintEnv \<Rightarrow>
               (case resolve_env w fs policy [''YOSYS_BIN'', ''STA_BIN'', ''LIBERTY''] of
                  Inl (Provisioning e) \<Rightarrow> (3, [], fs) | Inl (Raised e) \<Rightarrow> (1, [], fs) | Inr tools \<Rightarrow> (0, [], fs))
           | ReplayAll \<Rightarrow> replay_all w policy (packages w fs) 0 [] fs
           | ReplayOne s \<Rightarrow>
               if \<not> is_dir fs (package_path w fs s) then (3, [], fs)
               else (case replay_package w fs (package_path w fs s) (package_script w fs s) policy of
                 (Inl e, fs') \<Rightarrow> (1, [], fs') | (Inr oc, fs') \<Rightarrow> (outcome_code oc, [oc], fs'))
           | _ \<Rightarrow> (2, [], fs))))"

section \<open>Verified tools\<close>

lemma bind_rep_eq_Inr: "bind_rep m f = Inr y \<longleftrightarrow> (\<exists>x. m = Inr x \<and> f x = Inr y)"
  by (cases m) (auto simp: bind_rep_def)

lemma bind_rep_simps [simp]: "bind_rep (Inr x) f = f x" "bind_rep (Inl e) f = Inl e"
  by (simp_all add: bind_rep_def)

lemma raising_Inr [simp]: "raising m = Inr x \<longleftrightarrow> m = Inr x"
  by (cases m) (auto simp: raising_def)

lemma raising_simps [simp]: "raising (Inr x) = Inr x" "raising (Inl e) = Inl (Raised e)"
  by (simp_all add: raising_def)

lemma as_str_Inr [simp]: "as_str v = Inr s \<longleftrightarrow> v = JStr s"
  by (cases v) (auto simp: as_str_def)

lemma subscript_Inr: "subscript v k = Inr x \<longleftrightarrow> (\<exists>kvs. v = JObj kvs \<and> map_of kvs k = Some x)"
  by (cases v) (auto simp: subscript_def split: option.splits)

text \<open>What the policy pins for a tool.\<close>

definition pin :: "json \<Rightarrow> string \<Rightarrow> string \<Rightarrow> json" where
  "pin policy tool key =
     (case policy of JObj p \<Rightarrow> (case get p ''selected_tools'' of JObj t \<Rightarrow>
        (case get t tool of JObj s \<Rightarrow> get s key | _ \<Rightarrow> JNull) | _ \<Rightarrow> JNull) | _ \<Rightarrow> JNull)"

definition verified_tool :: "world \<Rightarrow> node \<Rightarrow> json \<Rightarrow> string \<Rightarrow> path \<Rightarrow> bool" where
  "verified_tool w fs policy var p \<longleftrightarrow>
     (if var = ''YOSYS_BIN'' then
        is_file fs p \<and> w_executable w fs p \<and>
        (\<exists>want. pin policy ''yosys'' ''version'' = JStr want \<and> startswith (run_version w fs p ''-V'') want)
      else if var = ''STA_BIN'' then
        is_file fs p \<and> w_executable w fs p \<and>
        (truthy (pin policy ''opensta'' ''version'') \<longrightarrow>
          (\<exists>want. pin policy ''opensta'' ''version'' = JStr want \<and> contains (run_version w fs p ''-version'') want))
      else
        (\<exists>b. read_bytes fs p = Some b \<and>
          (truthy (pin policy ''liberty'' ''sha256'') \<longrightarrow> pin policy ''liberty'' ''sha256'' = JStr (sha256 b))))"

lemma verify_yosys_Inr:
  "verify_yosys w fs v origin b = Inr (p, ident) \<Longrightarrow>
     is_file fs (tool_path w p) \<and> w_executable w fs (tool_path w p) \<and>
     (\<exists>want. v = JStr want \<and> startswith (run_version w fs (tool_path w p) ''-V'') want)"
  by (auto simp: verify_yosys_def Let_def bind_rep_eq_Inr split: if_split_asm)

lemma verify_sta_Inr:
  "verify_sta w fs v origin b = Inr (p, ident) \<Longrightarrow>
     is_file fs (tool_path w p) \<and> w_executable w fs (tool_path w p) \<and>
     (truthy v \<longrightarrow> (\<exists>want. v = JStr want \<and> contains (run_version w fs (tool_path w p) ''-version'') want))"
  by (auto simp: verify_sta_def Let_def bind_rep_eq_Inr split: if_split_asm)

lemma verify_liberty_Inr:
  "verify_liberty w fs v origin l = Inr (p, ident) \<Longrightarrow>
     (\<exists>b. read_bytes fs (tool_path w p) = Some b \<and> (truthy v \<longrightarrow> v = JStr (sha256 b)))"
  by (auto simp: verify_liberty_def Let_def split: if_split_asm option.splits)

lemma resolve_yosys_verified:
  assumes "resolve_yosys w fs policy = Inr (p, ident)"
  shows "verified_tool w fs policy ''YOSYS_BIN'' (tool_path w p)"
proof -
  from assms obtain pol t spec v src where pol: "policy = JObj pol" "map_of pol ''selected_tools'' = Some (JObj t)"
    "map_of t ''yosys'' = Some (JObj spec)" "map_of spec ''version'' = Some v"
    and body: "(case env_value w ''YOSYS_BIN'' of
         Some b \<Rightarrow> verify_yosys w fs v ''from the environment'' b
       | None \<Rightarrow>
           bind_rep (raising (as_str src)) (\<lambda>suite.
             case List.map_filter (suite_candidate w fs suite) (oss_cad_roots w) of
               cand # _ \<Rightarrow> verify_yosys w fs v ''auto-resolved from the pinned suite'' cand
             | [] \<Rightarrow> Inl (Provisioning (NotLocated ''yosys'')))) = Inr (p, ident)"
    unfolding resolve_yosys_def by (auto simp only: bind_rep_eq_Inr bind_res_eq_Inr subscript_Inr raising_Inr)
  have r: "\<exists>origin b. verify_yosys w fs v origin b = Inr (p, ident)"
  proof (cases "env_value w ''YOSYS_BIN''")
    case None
    with body obtain suite where "(case List.map_filter (suite_candidate w fs suite) (oss_cad_roots w) of
        cand # _ \<Rightarrow> verify_yosys w fs v ''auto-resolved from the pinned suite'' cand
      | [] \<Rightarrow> Inl (Provisioning (NotLocated ''yosys''))) = Inr (p, ident)"
      by (auto simp only: bind_rep_eq_Inr option.case)
    then show ?thesis by (cases "List.map_filter (suite_candidate w fs suite) (oss_cad_roots w)") auto
  qed (use body in auto)
  from pol have "pin policy ''yosys'' ''version'' = v" by (simp add: pin_def get_map_of)
  with r show ?thesis by (auto simp: verified_tool_def dest: verify_yosys_Inr)
qed

lemma get_or_get: "get_or (JObj []) kvs k = JObj s \<Longrightarrow> get kvs k = JObj s \<or> s = [] \<and> get kvs k = JNull"
  by (auto simp: get_or_def get_def split: option.splits)

lemma resolve_sta_verified:
  assumes "resolve_sta w fs policy = Inr (p, ident)"
  shows "verified_tool w fs policy ''STA_BIN'' (tool_path w p)"
proof -
  from assms obtain pol t spec where pol: "policy = JObj pol" "map_of pol ''selected_tools'' = Some (JObj t)"
    "get_or (JObj []) t ''opensta'' = JObj spec"
    and body: "(case List.map_filter (\<lambda>name. map_option (\<lambda>v. (name, v)) (env_value w name)) STA_VARS of
         (name, v) # _ \<Rightarrow> verify_sta w fs (get spec ''version'') (''from $'' @ name) v
       | [] \<Rightarrow>
           (case filter (\<lambda>c. is_file fs (tool_path w c)) (sta_on_path w) of
              c # _ \<Rightarrow> verify_sta w fs (get spec ''version'') ''auto-resolved from PATH'' c
            | [] \<Rightarrow> Inl (Provisioning (NotLocated ''sta'')))) = Inr (p, ident)"
    unfolding resolve_sta_def get_attr_def get_def
    by (auto simp only: bind_rep_eq_Inr bind_res_eq_Inr subscript_Inr raising_Inr as_obj_Inr sum.inject)
  from body have r: "\<exists>origin b. verify_sta w fs (get spec ''version'') origin b = Inr (p, ident)"
    by (auto split: list.split_asm prod.split_asm)
  from pol get_or_get[OF pol(3)] have "pin policy ''opensta'' ''version'' = get spec ''version''"
    by (auto simp: pin_def get_map_of)
  with r show ?thesis by (auto simp: verified_tool_def dest: verify_sta_Inr)
qed

lemma resolve_liberty_verified:
  assumes "resolve_liberty w fs policy = Inr (p, ident)"
  shows "verified_tool w fs policy ''LIBERTY'' (tool_path w p)"
proof -
  from assms obtain pol t spec where pol: "policy = JObj pol" "map_of pol ''selected_tools'' = Some (JObj t)"
    "map_of t ''liberty'' = Some (JObj spec)"
    and body: "\<exists>name. (case env_value w ''LIBERTY'' of
         Some l \<Rightarrow> verify_liberty w fs (get spec ''sha256'') ''from the environment'' l
       | None \<Rightarrow>
      (case env_value w ''LIBERTY_ROOT'' of
         Some r \<Rightarrow>
           bind_rep (raising (as_str name)) (\<lambda>n.
             verify_liberty w fs (get spec ''sha256'') ''from $LIBERTY_ROOT'' (under r n))
       | None \<Rightarrow>
           (case concat (map (liberty_candidates fs (py_str name)) [butlast (w_repo w), w_home w]) of
              cand # _ \<Rightarrow> verify_liberty w fs (get spec ''sha256'') ''auto-resolved from a co-located SDK'' cand
            | [] \<Rightarrow> Inl (Provisioning (NotLocated ''liberty''))))) = Inr (p, ident)"
    unfolding resolve_liberty_def get_attr_def get_def
    by (auto simp only: bind_rep_eq_Inr bind_res_eq_Inr subscript_Inr raising_Inr as_obj_Inr sum.inject)
  from body have r: "\<exists>origin l. verify_liberty w fs (get spec ''sha256'') origin l = Inr (p, ident)"
    by (auto simp: bind_rep_eq_Inr split: option.split_asm list.split_asm)
  from pol have "pin policy ''liberty'' ''sha256'' = get spec ''sha256''" by (simp add: pin_def get_map_of)
  with r show ?thesis by (auto simp: verified_tool_def dest: verify_liberty_Inr)
qed

lemma resolve_env_verified:
  assumes "resolve_env w fs policy vars = Inr tools" "set vars \<subseteq> {''YOSYS_BIN'', ''STA_BIN'', ''LIBERTY''}"
  shows "map fst tools = vars \<and> (\<forall>(var, p, ident)\<in>set tools. verified_tool w fs policy var (tool_path w p))"
  using assms
proof (induction vars arbitrary: tools)
  case (Cons var vars)
  from Cons.prems(1) obtain p ident rest where r: "resolver var w fs policy = Inr (p, ident)"
    "resolve_env w fs policy vars = Inr rest" "tools = (var, p, ident) # rest"
    by (auto simp: bind_rep_eq_Inr)
  have "verified_tool w fs policy var (tool_path w p)"
    using r(1) Cons.prems(2)
    by (auto simp: resolver_def dest: resolve_yosys_verified resolve_sta_verified resolve_liberty_verified
        split: if_split_asm)
  with Cons.IH[OF r(2)] Cons.prems(2) r(3) show ?case by auto
qed simp

section \<open>Bounds of the log text\<close>

lemma num_points_append [simp]: "num_points (s @ t) = num_points s + num_points t"
  by (simp add: num_points_def)

lemma take_takeWhile_prefix:
  "take (length (takeWhile P (take m r))) r = takeWhile P (take m r)"
  by (metis append_eq_conv_conj append_take_drop_id append.assoc takeWhile_dropWhile_id)

text \<open>A step of the decoder takes one character and continuation bytes after it.\<close>

lemma step_shape:
  "\<forall>a\<in>set (drop 1 (take (snd (utf8_step (c # cs))) (c # cs))). in_byte 0x80 0xBF a"
proof (cases "of_char c < (0x80 :: nat)")
  case False
  show ?thesis
  proof (cases "lead_info (of_char c)")
    case (Some i)
    obtain m lo hi where i: "i = (m, lo, hi)" by (cases i)
    have lead: "in_byte lo hi a \<Longrightarrow> in_byte 0x80 0xBF a" for a
      using Some i by (auto simp: lead_info_def in_byte_def split: if_split_asm)
    show ?thesis
    proof (cases cs)
      case (Cons a r)
      then show ?thesis using False Some i lead
        by (auto simp: utf8_step_def Let_def take_takeWhile_prefix dest: set_takeWhileD)
    qed (use False Some i in \<open>simp add: utf8_step_def\<close>)
  qed (use False in \<open>simp add: utf8_step_def\<close>)
qed (simp add: utf8_step_def)

lemma num_points_one:
  "\<forall>a\<in>set (drop 1 t). in_byte 0x80 0xBF a \<Longrightarrow> num_points t \<le> 1"
  by (cases t) (auto simp: num_points_def filter_empty_conv)

lemma num_points_step: "num_points (take (snd (utf8_step s)) s) \<le> 1"
  using step_shape by (cases s) (simp add: num_points_def, blast intro: num_points_one)

lemma num_points_take: "num_points (take_points n s) \<le> n \<and> num_points (take_points n s) \<le> num_points s"
proof (induction n s rule: take_points.induct)
  case (1 n s)
  show ?case
  proof (cases "n = 0 \<or> s = []")
    case True
    then show ?thesis by (subst (1 2) take_points.simps) (auto simp: num_points_def)
  next
    case False
    have s: "num_points s = num_points (take (snd (utf8_step s)) s) + num_points (drop (snd (utf8_step s)) s)"
      by (metis append_take_drop_id num_points_append)
    from False "1.IH" num_points_step[of s] show ?thesis
      by (subst (1 2) take_points.simps) (auto simp: s)
  qed
qed

lemma log_chunks_bound:
  "got < 8 * cap \<Longrightarrow> got + sum_list (map num_points (log_chunks cap got texts)) \<le> 9 * cap"
proof (induction cap got texts rule: log_chunks.induct)
  case (3 cap got "text" rest)
  have t: "num_points (take_points cap text) \<le> cap" "num_points (take_points cap text) \<le> num_points text"
    using num_points_take by auto
  show ?case
  proof (cases "cap * 8 \<le> got + num_points text")
    case True
    with t(1) 3(2) show ?thesis by simp
  next
    case False
    with 3(1)[OF False] t(2) show ?thesis by simp
  qed
qed auto

section \<open>The run of the script and the rest of the world\<close>

lemma world_run_simps [simp]:
  "load_policy (w\<lparr>w_run := run\<rparr>) fs = load_policy w fs"
  "env_value (w\<lparr>w_run := run\<rparr>) name = env_value w name"
  "tool_path (w\<lparr>w_run := run\<rparr>) s = tool_path w s"
  "run_version (w\<lparr>w_run := run\<rparr>) fs p flag = run_version w fs p flag"
  by (simp_all add: load_policy_def POLICY_PATH_def env_value_def tool_path_def run_version_def)

lemma paths_run_simps [simp]:
  "package_path (w\<lparr>w_run := run\<rparr>) fs s = package_path w fs s"
  "package_script (w\<lparr>w_run := run\<rparr>) fs s = package_script w fs s"
  "oss_cad_roots (w\<lparr>w_run := run\<rparr>) = oss_cad_roots w"
  "sta_on_path (w\<lparr>w_run := run\<rparr>) = sta_on_path w"
  by (simp_all add: package_path_def package_script_def artifact_root_def oss_cad_roots_def sta_on_path_def cong: option.case_cong)

lemma verify_run_simps [simp]:
  "verify_yosys (w\<lparr>w_run := run\<rparr>) fs v origin p = verify_yosys w fs v origin p"
  "verify_sta (w\<lparr>w_run := run\<rparr>) fs v origin p = verify_sta w fs v origin p"
  "verify_liberty (w\<lparr>w_run := run\<rparr>) fs v origin p = verify_liberty w fs v origin p"
  "suite_candidate (w\<lparr>w_run := run\<rparr>) fs suite = suite_candidate w fs suite"
  by (simp_all add: verify_yosys_def verify_sta_def verify_liberty_def suite_candidate_def fun_eq_iff)

lemma resolver_run [simp]: "resolver var (w\<lparr>w_run := run\<rparr>) fs policy = resolver var w fs policy"
  by (simp add: resolver_def resolve_yosys_def resolve_sta_def resolve_liberty_def
      cong: option.case_cong list.case_cong prod.case_cong)

lemma resolve_env_run [simp]: "resolve_env (w\<lparr>w_run := run\<rparr>) fs policy vars = resolve_env w fs policy vars"
  by (induction vars) simp_all

lemma clear_output_gone:
  assumes "''..'' \<notin> set pkg"
  shows "\<not> is_dir (clear_output fs pkg) (pkg @ [''replay_out''])"
proof -
  let ?p = "pkg @ [''replay_out'']"
  have "''..'' \<notin> set ?p" using assms by simp
  from resolve_plain[OF this] walk_plain[OF this, of _ "[]"] lookup_remove_path[of ?p fs]
  show ?thesis by (auto simp: clear_output_def is_dir_def)
qed

lemma outcome_code_zero: "outcome_code oc = 0 \<longleftrightarrow> (\<exists>tools. oc = Reproduced tools)"
  by (cases oc) auto

lemma replay_all_reproduced:
  "replay_all w policy pkgs worst seen fs = (0, outcomes, fs') \<Longrightarrow>
     worst = 0 \<and> (\<exists>new. outcomes = seen @ new \<and> length new = length pkgs \<and>
       list_all (\<lambda>oc. \<exists>tools. oc = Reproduced tools) new)"
proof (induction pkgs arbitrary: worst seen fs)
  case (Cons pkg pkgs)
  from Cons.prems obtain oc fs1 where r: "replay_package w fs pkg (abs_text (pkg @ [''replay.sh''])) policy = (Inr oc, fs1)"
    "replay_all w policy pkgs (if outcome_code oc \<noteq> 0 then max worst (outcome_code oc) else worst) (seen @ [oc]) fs1
       = (0, outcomes, fs')"
    by (auto split: prod.splits sum.splits)
  from Cons.IH[OF r(2)] obtain new where "outcome_code oc = 0" "worst = 0" "outcomes = seen @ oc # new"
    "length new = length pkgs" "list_all (\<lambda>oc. \<exists>tools. oc = Reproduced tools) new"
    by (auto split: if_split_asm)
  then show ?case by (intro conjI exI[of _ "oc # new"]) (auto simp: outcome_code_zero)
qed auto

section \<open>Properties\<close>



text \<open>\<^verbatim>\<open>--all\<close> exits 0 only when every package with a \<^verbatim>\<open>replay.sh\<close> was replayed and reproduced.\<close>

theorem replay_all_zero:
  assumes "replay_main w fs ReplayAll = (0, outcomes, fs')"
  shows "length outcomes = length (packages w fs) \<and> list_all (\<lambda>oc. \<exists>tools. oc = Reproduced tools) outcomes"
proof -
  from assms obtain policy where "replay_all w policy (packages w fs) 0 [] fs = (0, outcomes, fs')"
    by (auto simp: replay_main_def split: sum.splits)
  from replay_all_reproduced[OF this] show ?thesis by auto
qed

text \<open>A missing policy file, which the script names a provisioning error, is raised outside the
  handler: every mode but \<^verbatim>\<open>--list\<close> ends with code 1, the code of a red verdict, not with 3.\<close>

theorem missing_policy_exits_red:
  assumes "\<not> exists_path fs (POLICY_PATH w)" "args \<noteq> ListPackages"
  shows "load_policy w fs = Inl (Provisioning NoPolicy) \<and> replay_main w fs args = (1, [], fs)"
proof -
  have "read_text fs (POLICY_PATH w) = None"
    using assms(1) by (simp add: exists_path_def read_text_def read_bytes_def)
  with assms show ?thesis by (simp add: load_policy_def replay_main_def)
qed


text \<open>A tool given by a relative path is verified in the directory of the wrapper, but the script,
  which runs in the package's directory, is given the same relative text and so looks in another
  place than the one that was verified.\<close>

theorem relative_tool_unverified:
  assumes "env_value w ''YOSYS_BIN'' = Some given" "\<not> is_absolute given" "pkg \<noteq> w_cwd w"
    and "resolve_env w fs policy [''YOSYS_BIN''] = Inr tools"
  shows "\<exists>ident. tools = [(''YOSYS_BIN'', given, ident)] \<and>
    verified_tool w fs policy ''YOSYS_BIN'' (tool_path w given) \<and> join_path pkg given \<noteq> tool_path w given"
proof -
  from assms(4) obtain p ident where r: "resolve_yosys w fs policy = Inr (p, ident)"
    "tools = [(''YOSYS_BIN'', p, ident)]"
    by (auto simp: bind_rep_eq_Inr resolver_def)
  have "verify_yosys w fs v origin b = Inr (p, ident) \<Longrightarrow> p = b" for v origin b
    by (auto simp: verify_yosys_def Let_def bind_rep_eq_Inr split: if_split_asm)
  with r(1) assms(1) have "p = given" by (auto simp: resolve_yosys_def bind_rep_eq_Inr)
  with r(2) resolve_yosys_verified[OF r(1)] assms(2,3) show ?thesis
    by (auto simp: join_path_def tool_path_def)
qed

text \<open>A package named by a relative path is run in its own directory with the same relative path of
  its script, which \<^verbatim>\<open>bash\<close> then looks up below the package once more: what it is told to run is not
  the script that was read.\<close>

theorem relative_package_other_script:
  assumes "is_dir fs (tool_path w s)" "\<not> is_absolute s" "path_parts s \<noteq> []"
  shows "package_path w fs s = tool_path w s \<and>
    join_path (package_path w fs s) (package_script w fs s) \<noteq> package_path w fs s @ [''replay.sh'']"
proof -
  have r: "\<not> is_absolute ''replay.sh''" "path_parts ''replay.sh'' = [''replay.sh'']"
    by (simp_all add: is_absolute_def startswith_def path_parts_def)
  have "\<not> is_absolute (s @ ''/replay.sh'')"
    using assms(2,3) by (cases s) (auto simp: is_absolute_def startswith_def path_parts_def)
  moreover have "path_parts (s @ ''/replay.sh'') = path_parts s @ [''replay.sh'']"
    using split_on_sep[of "CHR ''/''" s "''replay.sh''"] r(2) by (simp add: path_parts_def)
  ultimately show ?thesis
    using assms r by (simp add: package_path_def package_script_def under_def join_path_def)
qed


section \<open>Witnesses\<close>

definition demo_policy :: str where
  "demo_policy = ''{\"selected_tools\":{\"yosys\":{\"version\":\"Y 1\",\"source\":\"s\"}}}''"

definition demo_replay_tree :: node where
  "demo_replay_tree =
     Dir [(''repo'', Dir [(''athanor'', Dir [(''toolchain_policy.json'', File demo_policy)]),
                          (''athanor_artifacts'', Dir [(''p'', Dir
                             [(''replay.sh'', File ''${YOSYS_BIN:?}''), (''replay_out'', Dir [])])])]),
          (''y'', File [])]"

definition demo_world :: "string option \<Rightarrow> world" where
  "demo_world yosys =
     \<lparr>w_env = (\<lambda>name. if name = ''YOSYS_BIN'' then yosys else None), w_cwd = [], w_home = [''home''],
      w_repo = [''repo''], w_executable = (\<lambda>_ _. True), w_version = (\<lambda>_ _ _. Some (''Y 1+2'', [])),
      w_which = (\<lambda>_. None), w_run = (\<lambda>fs _ _ _. (Some (0, [], []), fs))\<rparr>"

lemma demo_replay_passes:
  "replay_main (demo_world (Some ''/y'')) demo_replay_tree (ReplayOne ''p'') =
     (0, [Reproduced [(''YOSYS_BIN'', ''/y'', ''Y 1+2'')]], clear_output demo_replay_tree [''repo'', ''athanor_artifacts'', ''p''])"
  by code_simp

lemma demo_replay_unprovisioned:
  "replay_main (demo_world None) demo_replay_tree (ReplayOne ''p'') =
     (3, [ProvisioningFailed (NotLocated ''yosys'')], clear_output demo_replay_tree [''repo'', ''athanor_artifacts'', ''p''])"
  by code_simp

lemma demo_replay_all:
  "replay_main (demo_world (Some ''/y'')) demo_replay_tree ReplayAll =
     (0, [Reproduced [(''YOSYS_BIN'', ''/y'', ''Y 1+2'')]], clear_output demo_replay_tree [''repo'', ''athanor_artifacts'', ''p''])"
  by code_simp



theorem replay_all_zero_witness:
  "length (packages (demo_world (Some ''/y'')) demo_replay_tree) = 1"
  using replay_all_zero[OF demo_replay_all] by simp

theorem missing_policy_exits_red_witness:
  "replay_main (demo_world None) (Dir []) ReplayAll = (1, [], Dir [])"
proof -
  have "\<not> exists_path (Dir []) (POLICY_PATH (demo_world None))" by code_simp
  from missing_policy_exits_red[OF this, of ReplayAll] show ?thesis by simp
qed


theorem relative_tool_unverified_witness:
  "verified_tool (demo_world (Some ''y'')) demo_replay_tree
     (JObj [(''selected_tools'', JObj [(''yosys'', JObj [(''version'', JStr ''Y''), (''source'', JStr ''s'')])])])
     ''YOSYS_BIN'' [''y''] \<and>
   join_path [''repo'', ''athanor_artifacts'', ''p''] ''y'' \<noteq> [''y'']"
proof -
  let ?w = "demo_world (Some ''y'')"
  let ?policy = "JObj [(''selected_tools'', JObj [(''yosys'', JObj [(''version'', JStr ''Y''), (''source'', JStr ''s'')])])]"
  have e: "env_value ?w ''YOSYS_BIN'' = Some ''y''" "\<not> is_absolute ''y''" "tool_path ?w ''y'' = [''y'']"
    by code_simp+
  have c: "[''repo'', ''athanor_artifacts'', ''p''] \<noteq> w_cwd ?w" by (simp add: demo_world_def)
  have r: "resolve_env ?w demo_replay_tree ?policy [''YOSYS_BIN''] = Inr [(''YOSYS_BIN'', ''y'', ''Y 1+2'')]"
    by code_simp
  show ?thesis using relative_tool_unverified[OF e(1,2) c r] by (simp add: e(3))
qed

theorem relative_package_other_script_witness:
  "join_path (package_path (demo_world None) demo_replay_tree ''repo/athanor_artifacts/p'')
     (package_script (demo_world None) demo_replay_tree ''repo/athanor_artifacts/p'')
   \<noteq> [''repo'', ''athanor_artifacts'', ''p'', ''replay.sh'']"
proof -
  let ?s = "''repo/athanor_artifacts/p''" let ?w = "demo_world None"
  have d: "is_dir demo_replay_tree (tool_path ?w ?s)" "\<not> is_absolute ?s" "path_parts ?s \<noteq> []"
    "tool_path ?w ?s = [''repo'', ''athanor_artifacts'', ''p'']"
    by code_simp+
  from relative_package_other_script[OF d(1-3)] show ?thesis unfolding d(4) by (elim conjE) simp
qed

end
