(* ===== verification/ReceiptSums.thy ===== *)
theory ReceiptSums
  imports JsonText Sha256 Files
begin

text \<open>
  \<^verbatim>\<open>src/athanor/verify_public_receipts.py\<close>, first part: the checks of a package against its
  \<^verbatim>\<open>SHA256SUMS\<close>, that every file is listed there, that no listed path leaves the package, that no
  shipped text leaks an internal string, and that a receipt parses and has a self-checking replay.

  Findings are the strings of the script. A path is absolute (its components); the artifact root is
  taken below the repository root, so \<open>relative_to(REPO_ROOT)\<close> only fails for a listed file outside
  the repository. An exception nothing catches is the left side of a sum. The texts of a
  JSONDecodeError and of a failed read are parameters, as are the answers of git, in the record \<open>venv\<close>.
\<close>

record venv =
  v_repo :: path
  v_json_error :: "str \<Rightarrow> string"
  v_read_error :: "path \<Rightarrow> string"
  v_git_log :: "string option"
  v_git_dir :: bool
  v_subject :: "string \<Rightarrow> string option"
  v_blob :: "string \<Rightarrow> bytes option"

definition FORBIDDEN_EXPORT_STRINGS :: "string list" where
  "FORBIDDEN_EXPORT_STRINGS = [''/'' @ ''workdir'', ''athanor-'' @ ''kairos-runall'', ''/'' @ ''home/'', ''azure'' @ ''user'']"

text \<open>\<open>str(p.relative_to(REPO_ROOT))\<close>.\<close>

definition rel_text :: "venv \<Rightarrow> path \<Rightarrow> string res" where
  "rel_text env p =
     (case relative_to p (v_repo env) of None \<Rightarrow> Inl (ValueError (as_posix p)) | Some r \<Rightarrow> Inr (as_posix r))"

definition shown :: "venv \<Rightarrow> path \<Rightarrow> string" where
  "shown env p = as_posix (drop (length (v_repo env)) p)"

definition SUMS :: string where
  "SUMS = ''SHA256SUMS''"

section \<open>The manifest\<close>

text \<open>The two fields of a line, the \<^verbatim>\<open>./\<close> of the path removed.\<close>

definition sums_fields :: "str \<Rightarrow> (string \<times> string) option" where
  "sums_fields raw = map_option (\<lambda>(h, rel). (h, removeprefix rel ''./'')) (split_max1 raw)"

definition sums_line :: "venv \<Rightarrow> node \<Rightarrow> path \<Rightarrow> nat \<times> str \<Rightarrow> string list res" where
  "sums_line env fs pkg = (\<lambda>(lineno, raw).
     let place = shown env (pkg @ [SUMS]) @ '':'' @ dec lineno in
     if strip raw = [] then Inr []
     else (case sums_fields raw of
        None \<Rightarrow> Inr [place @ '': malformed line'']
      | Some (expected, rel) \<Rightarrow>
          (case read_bytes fs (join_path pkg rel) of
             None \<Rightarrow> Inr [place @ '': missing '' @ rel]
           | Some b \<Rightarrow>
               if sha256 b = expected then Inr []
               else bind_res (rel_text env (join_path pkg rel)) (\<lambda>t.
                 Inr [t @ '' sha256 mismatch: '' @ sha256 b @ '' != '' @ expected]))))"

definition verify_sums :: "venv \<Rightarrow> node \<Rightarrow> path \<Rightarrow> string list res" where
  "verify_sums env fs pkg =
     (if \<not> is_file fs (pkg @ [SUMS]) then Inr [shown env pkg @ '' missing SHA256SUMS'']
      else bind_res (read_text_res fs (pkg @ [SUMS])) (\<lambda>text.
        bind_res (map_res (sums_line env fs pkg) (enumerate_from 1 (splitlines text))) (\<lambda>ps. Inr (concat ps))))"

text \<open>The lines of \<^verbatim>\<open>SHA256SUMS\<close> that have two fields; none when there is no such file.\<close>

definition sums_rows :: "node \<Rightarrow> path \<Rightarrow> (string \<times> string) list res" where
  "sums_rows fs pkg =
     (if \<not> is_file fs (pkg @ [SUMS]) then Inr []
      else bind_res (read_text_res fs (pkg @ [SUMS])) (\<lambda>text.
        Inr (List.map_filter sums_fields (splitlines text))))"

definition sums_listed :: "node \<Rightarrow> path \<Rightarrow> string list res" where
  "sums_listed fs pkg = bind_res (sums_rows fs pkg) (\<lambda>rows. Inr (map snd rows))"

definition sums_entries :: "node \<Rightarrow> path \<Rightarrow> (string \<times> string) list res" where
  "sums_entries fs pkg = bind_res (sums_rows fs pkg) (\<lambda>rows. Inr (dict_of (map (\<lambda>(h, rel). (rel, h)) rows)))"

definition escape_line :: "venv \<Rightarrow> path \<Rightarrow> nat \<times> str \<Rightarrow> string list" where
  "escape_line env pkg = (\<lambda>(lineno, raw).
     let place = shown env (pkg @ [SUMS]) @ '':'' @ dec lineno in
     (case sums_fields raw of None \<Rightarrow> []
      | Some (h, rel) \<Rightarrow>
          if is_absolute rel then [place @ '': SHA256SUMS path must be relative'']
          else if relative_to (resolve (join_path pkg rel)) (resolve pkg) = None
          then [place @ '': SHA256SUMS path escapes package: '' @ rel] else []))"

definition sums_path_escapes :: "venv \<Rightarrow> node \<Rightarrow> path \<Rightarrow> string list res" where
  "sums_path_escapes env fs pkg =
     (if \<not> is_file fs (pkg @ [SUMS]) then Inr []
      else bind_res (read_text_res fs (pkg @ [SUMS])) (\<lambda>text.
        Inr (concat (map (escape_line env pkg) (enumerate_from 1 (splitlines text))))))"

definition GENERATED_SUFFIXES :: "string list" where
  "GENERATED_SUFFIXES = [''.replay.log'']"

definition GENERATED_DIRS :: "string list" where
  "GENERATED_DIRS = [''replay_out'']"

definition not_shipped :: "string \<Rightarrow> bool" where
  "not_shipped rel \<longleftrightarrow>
     rel = SUMS \<or> fst (partition_on CHR ''/'' rel) \<in> set GENERATED_DIRS \<or> list_ex (endswith rel) GENERATED_SUFFIXES"

text \<open>\<open>sorted(package.rglob("*"))\<close>, the files, by their path below the package.\<close>

definition package_files :: "node \<Rightarrow> path \<Rightarrow> path list" where
  "package_files fs pkg = sort (files_below (Dir (list_dir fs pkg)))"

definition verify_manifest_complete :: "venv \<Rightarrow> node \<Rightarrow> path \<Rightarrow> string list res" where
  "verify_manifest_complete env fs pkg =
     (if \<not> is_file fs (pkg @ [SUMS]) then Inr []
      else bind_res (sums_listed fs pkg) (\<lambda>listed.
        Inr (concat (map (\<lambda>p.
          let rel = as_posix p in
          if not_shipped rel then []
          else if rel \<notin> set listed then
            [shown env (pkg @ p) @ '' present but NOT bound by SHA256SUMS (unlisted artifact ships unverified)'']
          else []) (package_files fs pkg)))))"

section \<open>Receipt, leaks, replay\<close>

definition verify_receipt_json :: "venv \<Rightarrow> node \<Rightarrow> path \<Rightarrow> string list res" where
  "verify_receipt_json env fs pkg =
     (if \<not> exists_path fs (pkg @ [''receipt.json'']) then Inr []
      else bind_res (read_text_res fs (pkg @ [''receipt.json''])) (\<lambda>text.
        Inr (case json_loads text of
          None \<Rightarrow> [shown env (pkg @ [''receipt.json'']) @ '' JSON parse failed: '' @ v_json_error env text]
        | Some _ \<Rightarrow> [])))"

definition manifest_bound_files :: "node \<Rightarrow> path \<Rightarrow> path list res" where
  "manifest_bound_files fs pkg =
     bind_res (sums_rows fs pkg) (\<lambda>rows.
       let files = map (\<lambda>(h, rel). join_path pkg rel) rows in
       Inr (foldl (\<lambda>fl extra. if extra \<in> set fl then fl else fl @ [extra]) files
         [pkg @ [SUMS], pkg @ [''receipt.json''], pkg @ [''README.md'']]))"

definition leak_rows :: "venv \<Rightarrow> node \<Rightarrow> path \<Rightarrow> string list res" where
  "leak_rows env fs p =
     (case read_text fs p of None \<Rightarrow> Inr []
      | Some data \<Rightarrow>
          map_res (\<lambda>forbidden. bind_res (rel_text env p) (\<lambda>t.
              Inr (t @ '' contains public-export leak: '' @ forbidden)))
            (filter (contains data) FORBIDDEN_EXPORT_STRINGS))"

definition verify_public_export_clean :: "venv \<Rightarrow> node \<Rightarrow> path \<Rightarrow> string list res" where
  "verify_public_export_clean env fs pkg =
     bind_res (manifest_bound_files fs pkg) (\<lambda>files.
     bind_res (map_res (leak_rows env fs) (sorted_set files)) (\<lambda>rows. Inr (concat rows)))"

text \<open>The object, or the problems of reading it.\<close>

definition load_object :: "venv \<Rightarrow> node \<Rightarrow> path \<Rightarrow> (string list + obj) res" where
  "load_object env fs p =
     bind_res (read_text_res fs p) (\<lambda>text.
       Inr (case json_loads text of
         None \<Rightarrow> Inl [shown env p @ '' JSON parse failed: '' @ v_json_error env text]
       | Some (JObj kvs) \<Rightarrow> Inr kvs
       | Some _ \<Rightarrow> Inl [shown env p @ '' must contain a JSON object'']))"

definition verify_replay :: "venv \<Rightarrow> node \<Rightarrow> path \<Rightarrow> string list res" where
  "verify_replay env fs pkg =
     (if \<not> is_file fs (pkg @ [''receipt.json'']) then Inr []
      else if \<not> is_file fs (pkg @ [''replay.sh''])
      then Inr [shown env pkg @ '' ships receipt.json but no replay.sh'']
      else bind_res (read_text_res fs (pkg @ [''replay.sh''])) (\<lambda>text.
        Inr (if \<not> contains text ''grep -q''
          then [shown env (pkg @ [''replay.sh'']) @
                '' has no `grep -q` assertion -- replay produces logs but does not self-verify the claimed result'']
          else [])))"

section \<open>The manifest binds every file\<close>

lemma sums_rows_in:
  assumes "sums_rows fs pkg = Inr rows" "(h, rel) \<in> set rows"
  obtains "text" raw where "read_text fs (pkg @ [SUMS]) = Some text" "raw \<in> set (splitlines text)"
    "sums_fields raw = Some (h, rel)"
proof -
  from assms obtain "text" where t: "read_text fs (pkg @ [SUMS]) = Some text"
    "rows = List.map_filter sums_fields (splitlines text)"
    by (auto simp: sums_rows_def bind_res_eq_Inr split: if_split_asm)
  with assms(2) obtain raw where "raw \<in> set (splitlines text)" "sums_fields raw = Some (h, rel)"
    unfolding List.map_filter_def by auto
  with t(1) show thesis by (rule that)
qed

lemma sums_fields_blank: "sums_fields raw = Some x \<Longrightarrow> strip raw \<noteq> []"
proof
  assume f: "sums_fields raw = Some x" and s: "strip raw = []"
  then have "lstrip raw = []" by (simp add: strip_Nil_iff lstrip_def dropWhile_eq_Nil_conv)
  with f show False by (simp add: sums_fields_def split_max1_def)
qed

lemma map_res_concat_Nil:
  "map_res f xs = Inr ps \<Longrightarrow> concat ps = [] \<Longrightarrow> x \<in> set xs \<Longrightarrow> f x = Inr []"
  unfolding map_res_Inr list_all2_conv_all_nth in_set_conv_nth by (metis concat_eq_Nil_conv nth_mem)

lemma numbered: "x \<in> set xs \<Longrightarrow> \<exists>n. (n, x) \<in> set (enumerate_from k xs)"
proof -
  assume "x \<in> set xs"
  then have "x \<in> snd ` set (enumerate_from k xs)" by (metis map_snd_enumerate_from set_map)
  then show ?thesis by auto
qed

lemma verify_sums_lines:
  assumes "verify_sums env fs pkg = Inr []" "read_text fs (pkg @ [SUMS]) = Some text" "raw \<in> set (splitlines text)"
    "sums_fields raw = Some (h, rel)"
  shows "\<exists>b. read_bytes fs (join_path pkg rel) = Some b \<and> sha256 b = h"
proof -
  from assms(1,2) obtain ps where ps: "map_res (sums_line env fs pkg) (enumerate_from 1 (splitlines text)) = Inr ps"
    "concat ps = []"
    by (auto simp: verify_sums_def bind_res_eq_Inr split: if_split_asm simp del: concat_eq_Nil_conv)
  from numbered[OF assms(3)] obtain n where "(n, raw) \<in> set (enumerate_from 1 (splitlines text))" by blast
  with ps have "sums_line env fs pkg (n, raw) = Inr []" by (intro map_res_concat_Nil)
  then show ?thesis
    using assms(4) sums_fields_blank[OF assms(4)]
    by (auto simp: sums_line_def Let_def bind_res_eq_Inr split: option.splits if_split_asm)
qed

lemma package_lookup:
  assumes "p \<in> set (package_files fs pkg)" "wf_node fs" "''..'' \<notin> set pkg"
  shows "(\<exists>b. read_bytes fs (pkg @ p) = Some b) \<and> (\<forall>c\<in>set p. c \<noteq> [] \<and> c \<noteq> ''.'' \<and> c \<noteq> ''..'' \<and> CHR ''/'' \<notin> set c)"
proof -
  from assms(1) have p: "p \<in> set (files_below (Dir (list_dir fs pkg)))" by (simp add: package_files_def)
  then obtain es where es: "walk fs [] pkg = Some (Dir es)" "list_dir fs pkg = es"
    unfolding list_dir_def
    by (cases "walk fs [] pkg") (auto split: node.splits)
  then have l: "lookup fs pkg = Some (Dir es)" using walk_plain[OF assms(3), of fs "[]"] by simp
  note wf = wf_node_lookup[OF assms(2) l]
  from p es(2) files_below_iff[OF wf] obtain b where b: "lookup (Dir es) p = Some (File b)" by auto
  have names: "\<forall>c\<in>set p. c \<noteq> [] \<and> c \<noteq> ''.'' \<and> c \<noteq> ''..'' \<and> CHR ''/'' \<notin> set c"
    using wf_node_names[OF wf b] by blast
  with assms(3) have "''..'' \<notin> set (pkg @ p)" by auto
  from walk_plain[OF this, of fs "[]"] l b have "read_bytes fs (pkg @ p) = Some b"
    by (simp add: read_bytes_def lookup_append)
  with names show ?thesis by blast
qed

lemma manifest_complete_Nil:
  assumes "is_file fs (pkg @ [SUMS])" "sums_listed fs pkg = Inr listed"
  shows "verify_manifest_complete env fs pkg = Inr [] \<longleftrightarrow>
    (\<forall>p\<in>set (package_files fs pkg). not_shipped (as_posix p) \<or> as_posix p \<in> set listed)"
  using assms by (auto simp: verify_manifest_complete_def concat_map_Nil_iff Let_def simp del: concat_eq_Nil_conv)

lemma bound_by_manifest:
  assumes "verify_sums env fs pkg = Inr []" "verify_manifest_complete env fs pkg = Inr []"
    and "wf_node fs" "''..'' \<notin> set pkg"
    and "p \<in> set (package_files fs pkg)" "\<not> not_shipped (as_posix p)"
  shows "\<exists>rows b. sums_rows fs pkg = Inr rows \<and> read_bytes fs (pkg @ p) = Some b \<and>
    (sha256 b, as_posix p) \<in> set rows"
proof -
  from package_lookup[OF assms(5,3,4)] obtain b where b: "read_bytes fs (pkg @ p) = Some b"
    and names: "\<forall>c\<in>set p. c \<noteq> [] \<and> c \<noteq> ''.'' \<and> c \<noteq> ''..'' \<and> CHR ''/'' \<notin> set c" by blast
  have sums: "is_file fs (pkg @ [SUMS])" using assms(1) by (auto simp: verify_sums_def split: if_split_asm)
  from assms(2) sums obtain rows where rows: "sums_rows fs pkg = Inr rows"
    by (auto simp: verify_manifest_complete_def sums_listed_def bind_res_eq_Inr)
  then have "sums_listed fs pkg = Inr (map snd rows)" by (simp add: sums_listed_def)
  with manifest_complete_Nil[OF sums this] assms(2,5,6) have "as_posix p \<in> snd ` set rows" by auto
  then obtain h where h: "(h, as_posix p) \<in> set rows" by auto
  then obtain "text" raw where "read_text fs (pkg @ [SUMS]) = Some text" "raw \<in> set (splitlines text)"
    "sums_fields raw = Some (h, as_posix p)"
    by (rule sums_rows_in[OF rows])
  from verify_sums_lines[OF assms(1) this] have "\<exists>b. read_bytes fs (join_path pkg (as_posix p)) = Some b \<and> sha256 b = h" .
  moreover have "join_path pkg (as_posix p) = pkg @ p"
    using names path_parts_as_posix[of p] as_posix_not_absolute[of p] by (simp add: join_path_def)
  ultimately show ?thesis using rows b h by auto
qed

section \<open>Properties\<close>

text \<open>When the manifest checks report nothing, \<^verbatim>\<open>SHA256SUMS\<close> binds every file of the package but
  itself and the generated ones: the file is listed there by its path with the digest of its bytes.\<close>

theorem manifest_binds_all_files:
  assumes "verify_sums env fs pkg = Inr []" "verify_manifest_complete env fs pkg = Inr []"
    and "wf_node fs" "''..'' \<notin> set pkg"
    and "p \<in> set (package_files fs pkg)" "\<not> not_shipped (as_posix p)"
  shows "\<exists>rows b. sums_rows fs pkg = Inr rows \<and> read_bytes fs (pkg @ p) = Some b \<and>
    (sha256 b, as_posix p) \<in> set rows"
  using assms by (rule bound_by_manifest)

section \<open>Witnesses\<close>

text \<open>A package with the file \<^verbatim>\<open>a\<close>, bound by its manifest.\<close>

definition demo_env :: venv where
  "demo_env = \<lparr>v_repo = [], v_json_error = (\<lambda>_. []), v_read_error = (\<lambda>_. []), v_git_log = None, v_git_dir = False,
     v_subject = (\<lambda>_. None), v_blob = (\<lambda>_. None)\<rparr>"

definition demo_bound :: "bytes \<Rightarrow> node" where
  "demo_bound b = Dir [(''athanor_artifacts'', Dir [(''p'', Dir [(''a'', File b), (SUMS, File (unlines [sha256 b @ ''  a'']))])])]"

lemma sha256_plain: "one_line (sha256 b)" "ascii (sha256 b)" "CR \<notin> set (sha256 b)"
proof -
  have c: "is_digit c \<or> in_range CHR ''a'' CHR ''f'' c" if "c \<in> set (sha256 b)" for c
    using that by (rule sha256_hex_char)
  show "one_line (sha256 b)" "CR \<notin> set (sha256 b)" "ascii (sha256 b)"
    using c by (force simp: one_line_def ascii_def char_class_defs)+
qed

lemma demo_bound_text: "read_text (demo_bound b) [''athanor_artifacts'', ''p'', SUMS] = Some (unlines [sha256 b @ ''  a''])"
proof -
  have "ascii (unlines [sha256 b @ ''  a''])" "CR \<notin> set (unlines [sha256 b @ ''  a''])"
    using sha256_plain[of b] by (simp_all add: ascii_def)
  then show ?thesis
    by (simp add: read_text_def read_bytes_def demo_bound_def SUMS_def decode_strict_def ascii_valid universal_newlines_id)
qed

lemma demo_bound_lines: "splitlines (unlines [sha256 b @ ''  a'']) = [sha256 b @ ''  a'']"
  using sha256_plain(1)[of b] by (intro splitlines_unlines) (simp add: char_class_defs)

lemma demo_bound_fields: "sums_fields (sha256 b @ ''  a'') = Some (sha256 b, ''a'')"
proof -
  have "split_max1 (sha256 b @ ''  '' @ ''a'') = Some (sha256 b, ''a'')"
    using sha256_no_space[of _ b] by (intro split_max1_line) (simp, blast, simp, simp add: char_class_defs)
  then show ?thesis by (simp add: sums_fields_def removeprefix_def)
qed

lemma demo_bound_file: "read_bytes (demo_bound b) (join_path [''athanor_artifacts'', ''p''] ''a'') = Some b"
  by (simp add: join_path_def is_absolute_def startswith_def path_parts_def read_bytes_def demo_bound_def SUMS_def)

lemma demo_bound_sums: "verify_sums demo_env (demo_bound b) [''athanor_artifacts'', ''p''] = Inr []"
proof -
  have f: "is_file (demo_bound b) [''athanor_artifacts'', ''p'', SUMS]" by (simp add: is_file_def demo_bound_def SUMS_def)
  show ?thesis
    using sums_fields_blank[OF demo_bound_fields[of b]]
    by (simp add: verify_sums_def f read_text_res_def demo_bound_text demo_bound_lines sums_line_def demo_bound_fields
        demo_bound_file del: unlines_simps)
qed

lemma demo_bound_complete: "verify_manifest_complete demo_env (demo_bound b) [''athanor_artifacts'', ''p''] = Inr []"
proof -
  have f: "is_file (demo_bound b) [''athanor_artifacts'', ''p'', SUMS]" by (simp add: is_file_def demo_bound_def SUMS_def)
  have p: "package_files (demo_bound b) [''athanor_artifacts'', ''p''] = sort [[''a''], [SUMS]]"
    by (simp add: package_files_def list_dir_def demo_bound_def SUMS_def)
  have n: "not_shipped SUMS" by (simp add: not_shipped_def)
  have l: "sums_listed (demo_bound b) [''athanor_artifacts'', ''p''] = Inr [''a'']"
    by (simp add: f sums_listed_def sums_rows_def read_text_res_def demo_bound_text demo_bound_lines
        List.map_filter_simps demo_bound_fields del: unlines_simps)
  from f have "is_file (demo_bound b) ([''athanor_artifacts'', ''p''] @ [SUMS])" by simp
  from manifest_complete_Nil[OF this l] n show ?thesis by (auto simp: p as_posix_def)
qed

theorem manifest_binds_all_files_witness:
  "\<exists>rows. sums_rows (demo_bound []) [''athanor_artifacts'', ''p''] = Inr rows \<and> (sha256 [], ''a'') \<in> set rows"
proof -
  have w: "wf_node (demo_bound [])" by (simp add: demo_bound_def SUMS_def)
  have p: "[''a''] \<in> set (package_files (demo_bound []) [''athanor_artifacts'', ''p''])"
    by (simp add: package_files_def list_dir_def demo_bound_def SUMS_def)
  have n: "\<not> not_shipped (as_posix [''a''])" by code_simp
  show ?thesis
    using manifest_binds_all_files[OF demo_bound_sums demo_bound_complete w _ p n] demo_bound_file[of "[]"]
    by (auto simp: as_posix_def join_path_def is_absolute_def startswith_def path_parts_def)
qed



end
