(* ===== verification/ReceiptClaims.thy ===== *)
theory ReceiptClaims
  imports ReceiptSums Regex
begin

text \<open>
  \<^verbatim>\<open>src/athanor/verify_public_receipts.py\<close>, second part: what a receipt claims. A customer-ready
  receipt needs an authority block bound to shipped bytes; a metric packet also a binding receipt
  for the same candidate; a proof packet must not carry before/after numbers; and every area value
  must stand in a bound log.

  Each group of checks in a loop body is a definition of its own. A float is printed by its \<open>repr\<close>
  text; an int area is below \<open>10 ^ 16\<close>, where \<open>repr(float(i))\<close> is its digits and \<^verbatim>\<open>.0\<close>.
\<close>

section \<open>The kind of a receipt\<close>

definition customer_ready :: "obj \<Rightarrow> bool" where
  "customer_ready receipt \<longleftrightarrow> get receipt ''customer_ready'' = JBool True"

definition receipt_status :: "obj \<Rightarrow> string" where
  "receipt_status receipt = py_str (get_or (JStr []) receipt ''status'')"

definition is_metric_packet :: "obj \<Rightarrow> bool" where
  "is_metric_packet receipt \<longleftrightarrow>
     contains (receipt_status receipt) ''area_timing_opensta_estimated_power'' \<or>
     {''area'', ''timing'', ''power''} \<subseteq>
       (case get_or (JObj []) receipt ''metrics'' of JObj metrics \<Rightarrow> fst ` set metrics | _ \<Rightarrow> {})"

definition RECOGNIZED_NONMETRIC_STATUS_MARKERS :: "string list" where
  "RECOGNIZED_NONMETRIC_STATUS_MARKERS = [''visible_output_equivalence'', ''visible_output_relation'']"

definition only :: "bool \<Rightarrow> string \<Rightarrow> string list" where
  "only b s = (if b then [s] else [])"

definition RECEIPT :: string where
  "RECEIPT = ''receipt.json''"

section \<open>Authority\<close>

definition fallback_problems :: "string \<Rightarrow> obj \<Rightarrow> string list" where
  "fallback_problems rel block =
     concat (map (\<lambda>key. only (\<not> nonempty_string (get block key)) (rel @ '': lean_fallback missing nonempty '' @ key))
       [''reason'', ''strongest_evidence'', ''scope_boundary''])"

definition bound_problems :: "string \<Rightarrow> json list \<Rightarrow> obj \<Rightarrow> string list" where
  "bound_problems rel bound_hashes binding =
     concat (map (\<lambda>key. let value = get binding key in
         if \<not> nonempty_string value then [rel @ '': candidate_binding missing nonempty '' @ key]
         else only (value \<notin> set bound_hashes)
           (rel @ '': candidate_binding.'' @ key @ ''='' @ py_str value @ '' is not bound by SHA256SUMS''))
       [''gold_sha256'', ''gate_sha256''])"

definition candidate_problems :: "string \<Rightarrow> obj \<Rightarrow> obj \<Rightarrow> string list" where
  "candidate_problems rel receipt binding =
     (case get_or (JObj []) receipt ''candidate'' of
        JObj candidate \<Rightarrow>
          let sha = get candidate ''candidate_sha256''; gate = get binding ''gate_sha256'' in
          if \<not> nonempty_string sha
          then [rel @ '': customer_ready authority packet missing candidate.candidate_sha256'']
          else only (gate \<noteq> sha)
            (rel @ '': candidate_binding.gate_sha256='' @ py_str gate @
             '' does not match candidate.candidate_sha256='' @ py_str sha)
      | _ \<Rightarrow> [rel @ '': customer_ready authority packet missing candidate.candidate_sha256''])"

text \<open>The values of \<open>_sums_entries\<close>, as a receipt would hold them.\<close>

definition bound_hashes :: "node \<Rightarrow> path \<Rightarrow> json list res" where
  "bound_hashes fs pkg = bind_res (sums_entries fs pkg) (\<lambda>entries. Inr (map (\<lambda>(rel, h). JStr h) entries))"

definition verify_customer_ready_authority :: "venv \<Rightarrow> node \<Rightarrow> path \<Rightarrow> obj \<Rightarrow> string list res" where
  "verify_customer_ready_authority env fs pkg receipt =
     (let rel = shown env (pkg @ [RECEIPT]);
          authority = get receipt ''lean_authority''; fallback = get receipt ''lean_fallback'' in
      if \<not> customer_ready receipt then Inr []
      else if is_dict authority = is_dict fallback
      then Inr [rel @ '': customer_ready must carry exactly one of lean_authority or lean_fallback'']
      else (case (if is_dict authority then authority else fallback) of
        JObj block \<Rightarrow>
          (let problems = (if is_dict fallback then fallback_problems rel block else []) in
           case get block ''candidate_binding'' of
             JObj binding \<Rightarrow>
               bind_res (bound_hashes fs pkg) (\<lambda>hashes.
                 Inr (problems @ bound_problems rel hashes binding @ candidate_problems rel receipt binding))
           | _ \<Rightarrow> Inr (problems @ [rel @ '': customer_ready authority block missing candidate_binding'']))
      | _ \<Rightarrow> Inr []))"

section \<open>Metric packets\<close>

definition CANDIDATE_KEYS :: "string list" where
  "CANDIDATE_KEYS = [''candidate_sha256'', ''mapped_netlist_sha256'', ''selected_flow'']"

definition BINDING :: string where
  "BINDING = ''same_candidate_binding_receipt.json''"

definition same_candidate_problems :: "string \<Rightarrow> string \<Rightarrow> obj \<Rightarrow> obj \<Rightarrow> string list" where
  "same_candidate_problems rel_receipt rel_binding rc bc =
     concat (map (\<lambda>key.
         only (\<not> nonempty_string (get rc key)) (rel_receipt @ '': candidate missing nonempty '' @ key) @
         only (\<not> py_eq (get bc key) (get rc key))
           (rel_binding @ '': candidate.'' @ key @ ''='' @ py_repr (get bc key) @
            '' does not match receipt candidate.'' @ key @ ''='' @ py_repr (get rc key)))
       CANDIDATE_KEYS)"

definition negative_problems :: "string \<Rightarrow> string \<Rightarrow> (string \<times> string) list \<Rightarrow> obj \<Rightarrow> obj \<Rightarrow> string list" where
  "negative_problems rel axis_name entries bc negative =
     (let regressed = get negative ''regressed_candidate_sha256''; log_ref = get negative ''log_ref'';
          place = rel @ '': '' @ axis_name @ ''.negative_control'' in
      only (get negative ''axis_reds'' \<noteq> JBool True) (place @ ''.axis_reds must be true'') @
      (if \<not> nonempty_string regressed then [place @ '' missing regressed_candidate_sha256'']
       else if py_eq regressed (get bc ''candidate_sha256'')
       then [place @ ''.regressed_candidate_sha256 must differ from the accepted candidate_sha256'']
       else only (regressed \<notin> set (map (\<lambda>(p, h). JStr h) entries))
         (place @ ''.regressed_candidate_sha256='' @ py_str regressed @ '' is not bound by SHA256SUMS'')) @
      (if \<not> nonempty_string log_ref then [place @ '' missing log_ref'']
       else only (removeprefix (py_str log_ref) ''./'' \<notin> fst ` set entries)
         (place @ ''.log_ref='' @ py_repr log_ref @ '' is not bound by SHA256SUMS'')))"

definition axis_problems :: "string \<Rightarrow> (string \<times> string) list \<Rightarrow> obj \<Rightarrow> obj \<Rightarrow> string \<Rightarrow> string list" where
  "axis_problems rel entries bc axes axis_name =
     (case get axes axis_name of
        JObj axis \<Rightarrow>
          concat (map (\<lambda>key. only (\<not> py_eq (get axis key) (get bc key))
              (rel @ '': '' @ axis_name @ ''.'' @ key @ ''='' @ py_repr (get axis key) @
               '' does not match candidate.'' @ key @ ''='' @ py_repr (get bc key))) CANDIDATE_KEYS) @
          concat (map (\<lambda>key. only (\<not> nonempty_string (get axis key))
              (rel @ '': '' @ axis_name @ '' missing nonempty '' @ key)) [''instrument'', ''instrument_version'']) @
          only (\<not> is_dict (get axis ''metric'') \<or> \<not> truthy (get axis ''metric''))
            (rel @ '': '' @ axis_name @ '' missing metric object'') @
          (case get axis ''negative_control'' of
             JObj negative \<Rightarrow> negative_problems rel axis_name entries bc negative
           | _ \<Rightarrow> [rel @ '': '' @ axis_name @ '' missing negative_control''])
      | _ \<Rightarrow> [rel @ '': missing '' @ axis_name @ '' axis''])"

definition power_boundary_ok :: "obj \<Rightarrow> bool" where
  "power_boundary_ok power_axis \<longleftrightarrow>
     (case get power_axis ''metric'' of
        JObj metric \<Rightarrow>
          (let boundary = get metric ''methodology_boundary'' in
           nonempty_string boundary \<and> contains (py_str boundary) ''not signoff'' \<and>
           contains (py_str boundary) ''not measured workload'')
      | _ \<Rightarrow> False)"

definition power_problems :: "string \<Rightarrow> obj \<Rightarrow> string list" where
  "power_problems rel axes =
     (case get axes ''power'' of
        JObj power_axis \<Rightarrow> only (\<not> power_boundary_ok power_axis)
          (rel @ '': power.metric.methodology_boundary must qualify OpenSTA power as not signoff and not measured workload'')
      | _ \<Rightarrow> [])"

definition binding_problems :: "venv \<Rightarrow> node \<Rightarrow> path \<Rightarrow> obj \<Rightarrow> obj \<Rightarrow> string list res" where
  "binding_problems env fs pkg receipt binding =
     (let rel_receipt = shown env (pkg @ [RECEIPT]); rel_binding = shown env (pkg @ [BINDING]) in
      case get receipt ''candidate'' of
        JObj rc \<Rightarrow>
          (case get binding ''candidate'' of
             JObj bc \<Rightarrow>
               (let problems = same_candidate_problems rel_receipt rel_binding rc bc in
                case get binding ''axes'' of
                  JObj axes \<Rightarrow>
                    bind_res (sums_entries fs pkg) (\<lambda>entries.
                      let mapped = get bc ''mapped_netlist_sha256'' in
                      Inr (problems @
                        only (\<not> nonempty_string mapped \<or> mapped \<notin> set (map (\<lambda>(p, h). JStr h) entries))
                          (rel_binding @ '': candidate.mapped_netlist_sha256 is not bound by SHA256SUMS'') @
                        concat (map (axis_problems rel_binding entries bc axes) [''area'', ''timing'', ''power'']) @
                        power_problems rel_binding axes))
                | _ \<Rightarrow> Inr (problems @ [rel_binding @ '': missing axes object'']))
           | _ \<Rightarrow> Inr [rel_binding @ '': missing candidate object''])
      | _ \<Rightarrow> Inr [rel_receipt @ '': metric packet missing candidate object''])"

definition verify_same_candidate_metric_binding :: "venv \<Rightarrow> node \<Rightarrow> path \<Rightarrow> obj \<Rightarrow> string list res" where
  "verify_same_candidate_metric_binding env fs pkg receipt =
     (let rel = shown env (pkg @ [RECEIPT]); status = receipt_status receipt in
      if \<not> customer_ready receipt then Inr []
      else if \<not> is_metric_packet receipt then
        Inr (only (\<not> list_ex (contains status) RECOGNIZED_NONMETRIC_STATUS_MARKERS)
          (rel @ '': customer_ready packet has unrecognized status '' @ repr_str status @
           '' -- not a recognized metric or proof/equivalence type; a customer PPA claim must use a recognized '' @
           ''bound packet type (fail-closed against renamed-container or renamed-axis evasion)''))
      else if \<not> is_file fs (pkg @ [BINDING])
      then Inr [rel @ '': customer_ready metric packet missing same_candidate_binding_receipt.json'']
      else bind_res (load_object env fs (pkg @ [BINDING])) (\<lambda>loaded. case loaded of
          Inl errors \<Rightarrow> Inr errors
        | Inr binding \<Rightarrow> binding_problems env fs pkg receipt binding))"

section \<open>Area values and the bound logs\<close>

definition AREA_KEY :: rx where
  "AREA_KEY = rlit_ci ''area''"

definition CELL_KEY :: rx where
  "CELL_KEY = rlit_ci ''cell''"

definition subkey :: "string \<Rightarrow> string \<Rightarrow> string" where
  "subkey key_path k = (if key_path \<noteq> [] then key_path @ ''.'' @ k else k)"

definition subindex :: "string \<Rightarrow> nat \<Rightarrow> string" where
  "subindex key_path i = key_path @ ''['' @ dec i @ '']''"

text \<open>The claims, each with the number as the receipt has it.\<close>

fun receipt_area_claims :: "json \<Rightarrow> string \<Rightarrow> (string \<times> json) list" where
  "receipt_area_claims (JObj kvs) key_path =
     concat (map (\<lambda>(k, v). receipt_area_claims v (subkey key_path k)) kvs)"
| "receipt_area_claims (JArr xs) key_path =
     concat (map (\<lambda>(x, i). receipt_area_claims x (subindex key_path i)) (zip xs [0..<length xs]))"
| "receipt_area_claims v key_path =
     (if is_number v \<and> rx_search AREA_KEY key_path \<and> \<not> rx_search CELL_KEY key_path then [(key_path, v)] else [])"

text \<open>\<^verbatim>\<open>f"{float(v):.nf}"\<close> and \<open>str(float(v))\<close>.\<close>

definition format_claim :: "nat \<Rightarrow> json \<Rightarrow> string" where
  "format_claim n v =
     (case v of
        JFloat s \<Rightarrow> format_fixed n (is_negative s) \<bar>float_val s\<bar>
      | JInt i \<Rightarrow> format_fixed n (i < 0) \<bar>float_of_int i\<bar>
      | _ \<Rightarrow> [])"

definition claim_text :: "json \<Rightarrow> string" where
  "claim_text v = (case v of JFloat s \<Rightarrow> s | JInt i \<Rightarrow> dec_int i @ ''.0'' | _ \<Rightarrow> [])"

definition claim_forms :: "json \<Rightarrow> string list" where
  "claim_forms v = [format_claim 6 v, format_claim 4 v, format_claim 1 v]"

definition read_text_ignore :: "node \<Rightarrow> path \<Rightarrow> str option" where
  "read_text_ignore fs p = map_option (\<lambda>b. universal_newlines (decode_ignore b)) (read_bytes fs p)"

definition sha_bound_log_text :: "node \<Rightarrow> path \<Rightarrow> str res" where
  "sha_bound_log_text fs pkg =
     bind_res (sums_listed fs pkg) (\<lambda>listed.
       Inr (join [NL] (List.map_filter (\<lambda>rel. read_text_ignore fs (join_path pkg rel))
         (filter (\<lambda>rel. endswith rel ''.log'') (sorted_set listed)))))"

definition verify_receipt_bound_to_logs :: "venv \<Rightarrow> node \<Rightarrow> path \<Rightarrow> string list res" where
  "verify_receipt_bound_to_logs env fs pkg =
     (if \<not> is_file fs (pkg @ [RECEIPT]) then Inr []
      else bind_res (read_text_res fs (pkg @ [RECEIPT])) (\<lambda>text.
        case json_loads text of None \<Rightarrow> Inr []
        | Some data \<Rightarrow>
            let claims = receipt_area_claims data [] in
            if claims = [] then Inr []
            else bind_res (sha_bound_log_text fs pkg) (\<lambda>logtext.
              Inr (concat (map (\<lambda>(key_path, value).
                only (\<not> list_ex (contains logtext) (claim_forms value))
                  (shown env (pkg @ [RECEIPT]) @ '': area claim '' @ key_path @ ''='' @ claim_text value @
                   '' does not appear in any SHA-bound pinned log (receipt self-certifies -- not parsed from the bound bytes)''))
                claims)))))"

section \<open>Before/after numbers of proof packets\<close>

definition numeric_keys :: "string \<Rightarrow> obj \<Rightarrow> string list" where
  "numeric_keys p kvs = map fst (filter (\<lambda>(k, v). startswith (lower k) p \<and> is_number v) kvs)"

text \<open>\<open>path.rsplit(".", 1)[-1]\<close>.\<close>

definition last_part :: "string \<Rightarrow> string" where
  "last_part p = rev (takeWhile (\<lambda>c. c \<noteq> CHR ''.'') (rev p))"

fun gold_gate_numeric_pairs :: "json \<Rightarrow> string \<Rightarrow> (string \<times> string \<times> string list) list" where
  "gold_gate_numeric_pairs (JObj kvs) p =
     (let gk = numeric_keys ''gold'' kvs; tk = numeric_keys ''gate'' kvs in
      if gk \<noteq> [] \<and> tk \<noteq> [] then [(if p \<noteq> [] then p else ''<root>'', last_part p, gk @ tk)] else []) @
     concat (map (\<lambda>(k, v). gold_gate_numeric_pairs v (subkey p k)) kvs)"
| "gold_gate_numeric_pairs (JArr xs) p =
     concat (map (\<lambda>(x, i). gold_gate_numeric_pairs x (subindex p i)) (zip xs [0..<length xs]))"
| "gold_gate_numeric_pairs v p = []"

definition cell_count_context :: "string \<Rightarrow> string list \<Rightarrow> bool" where
  "cell_count_context parent keys \<longleftrightarrow>
     parent = ''generic_cells'' \<and> list_all (\<lambda>k. contains (lower k) ''cell'') keys"

definition verify_proof_packet_no_smuggled_ppa :: "venv \<Rightarrow> path \<Rightarrow> obj \<Rightarrow> string list" where
  "verify_proof_packet_no_smuggled_ppa env pkg receipt =
     (if \<not> customer_ready receipt \<or> is_metric_packet receipt then []
      else concat (map (\<lambda>(loc, parent, keys). only (\<not> cell_count_context parent keys)
        (shown env (pkg @ [RECEIPT]) @ '': customer_ready proof/equivalence packet presents a gold/gate numeric pair at '' @
         loc @ '' that is not documented generic cell-count context -- a PPA claim must use a recognized bound metric '' @
         ''packet (fail-closed against renamed-container PPA smuggling under a proof status)''))
        (gold_gate_numeric_pairs (JObj receipt) [])))"

definition verify_customer_ready_receipt :: "venv \<Rightarrow> node \<Rightarrow> path \<Rightarrow> string list res" where
  "verify_customer_ready_receipt env fs pkg =
     (if \<not> is_file fs (pkg @ [RECEIPT]) then Inr []
      else bind_res (load_object env fs (pkg @ [RECEIPT])) (\<lambda>loaded. case loaded of
          Inl errors \<Rightarrow> Inr []
        | Inr receipt \<Rightarrow>
            bind_res (verify_customer_ready_authority env fs pkg receipt) (\<lambda>a.
            bind_res (verify_same_candidate_metric_binding env fs pkg receipt) (\<lambda>m.
              Inr (a @ m @ verify_proof_packet_no_smuggled_ppa env pkg receipt)))))"

section \<open>What a clean customer-ready receipt says\<close>

lemma only_Nil [simp]: "only b s = [] \<longleftrightarrow> \<not> b"
  by (simp add: only_def)

lemma concat_only_Nil:
  "concat (map (\<lambda>(a, b). only (\<not> P a b) (m a b)) xs) = [] \<Longrightarrow> (a, b) \<in> set xs \<Longrightarrow> P a b"
  by (induction xs) auto

definition listed_hash :: "(string \<times> string) list \<Rightarrow> string \<Rightarrow> bool" where
  "listed_hash entries h \<longleftrightarrow> h \<in> snd ` set entries"

definition listed_path :: "(string \<times> string) list \<Rightarrow> string \<Rightarrow> bool" where
  "listed_path entries p \<longleftrightarrow> p \<in> fst ` set entries"

lemma listed_simps [simp]:
  "v \<in> (\<lambda>(p, h). JStr h) ` set entries \<longleftrightarrow> (\<exists>h. v = JStr h \<and> listed_hash entries h)"
  "p \<in> fst ` set entries \<longleftrightarrow> listed_path entries p"
  by (force simp: listed_hash_def listed_path_def)+

text \<open>The candidate of an authority block: gold and gate are bytes the manifest lists, and the gate is
  the candidate the receipt is about.\<close>

definition authority_bound :: "(string \<times> string) list \<Rightarrow> obj \<Rightarrow> obj \<Rightarrow> bool" where
  "authority_bound entries receipt binding \<longleftrightarrow>
     (\<exists>gold gate candidate. get binding ''gold_sha256'' = JStr gold \<and> get binding ''gate_sha256'' = JStr gate \<and>
        listed_hash entries gold \<and> listed_hash entries gate \<and>
        get_or (JObj []) receipt ''candidate'' = JObj candidate \<and> get candidate ''candidate_sha256'' = JStr gate)"

lemma bound_problems_Nil:
  "bound_problems rel (map (\<lambda>(p, h). JStr h) entries) binding = [] \<longleftrightarrow>
     (\<exists>gold gate. get binding ''gold_sha256'' = JStr gold \<and> get binding ''gate_sha256'' = JStr gate \<and>
        strip gold \<noteq> [] \<and> strip gate \<noteq> [] \<and> listed_hash entries gold \<and> listed_hash entries gate)"
  by (auto simp: bound_problems_def Let_def nonempty_string_iff split: if_split_asm)

lemma candidate_problems_Nil:
  "candidate_problems rel receipt binding = [] \<longleftrightarrow>
     (\<exists>candidate sha. get_or (JObj []) receipt ''candidate'' = JObj candidate \<and>
        get candidate ''candidate_sha256'' = JStr sha \<and> strip sha \<noteq> [] \<and> get binding ''gate_sha256'' = JStr sha)"
  by (auto simp: candidate_problems_def Let_def nonempty_string_iff split: json.splits if_split_asm)

text \<open>One axis of a metric packet, measured on the candidate itself and shown to react to a regressed
  one whose bytes and log are shipped.\<close>

definition axis_bound :: "(string \<times> string) list \<Rightarrow> obj \<Rightarrow> obj \<Rightarrow> string \<Rightarrow> bool" where
  "axis_bound entries bc axes axis_name \<longleftrightarrow>
     (\<exists>axis negative regressed log_ref metric.
        get axes axis_name = JObj axis \<and> (\<forall>key\<in>set CANDIDATE_KEYS. py_eq (get axis key) (get bc key)) \<and>
        get axis ''metric'' = JObj metric \<and> metric \<noteq> [] \<and>
        get axis ''negative_control'' = JObj negative \<and> get negative ''axis_reds'' = JBool True \<and>
        get negative ''regressed_candidate_sha256'' = JStr regressed \<and>
        \<not> py_eq (JStr regressed) (get bc ''candidate_sha256'') \<and> listed_hash entries regressed \<and>
        get negative ''log_ref'' = JStr log_ref \<and> listed_path entries (removeprefix log_ref ''./''))"

lemma negative_problems_Nil:
  "negative_problems rel axis_name entries bc negative = [] \<Longrightarrow>
     get negative ''axis_reds'' = JBool True \<and>
     (\<exists>regressed log_ref. get negative ''regressed_candidate_sha256'' = JStr regressed \<and>
        \<not> py_eq (JStr regressed) (get bc ''candidate_sha256'') \<and> listed_hash entries regressed \<and>
        get negative ''log_ref'' = JStr log_ref \<and> listed_path entries (removeprefix log_ref ''./''))"
  by (auto simp: negative_problems_def Let_def nonempty_string_iff split: if_split_asm)

lemma axis_problems_Nil: "axis_problems rel entries bc axes axis_name = [] \<Longrightarrow> axis_bound entries bc axes axis_name"
  unfolding axis_problems_def axis_bound_def
  by (cases "get axes axis_name")
    (auto simp: is_dict_iff truthy_def dest!: negative_problems_Nil split: json.splits)

lemma bound_hashes_Inr: "bound_hashes fs pkg = Inr hashes \<longleftrightarrow>
    (\<exists>entries. sums_entries fs pkg = Inr entries \<and> hashes = map (\<lambda>(p, h). JStr h) entries)"
  by (auto simp: bound_hashes_def bind_res_eq_Inr)

text \<open>The block that speaks for the receipt, and its candidate binding.\<close>

definition authority_binding :: "obj \<Rightarrow> obj \<Rightarrow> bool" where
  "authority_binding receipt binding \<longleftrightarrow>
     (\<exists>block. (get receipt ''lean_authority'' = JObj block \<and> \<not> is_dict (get receipt ''lean_fallback'') \<or>
         get receipt ''lean_fallback'' = JObj block \<and> \<not> is_dict (get receipt ''lean_authority'')) \<and>
        get block ''candidate_binding'' = JObj binding)"

lemma authority_Nil:
  assumes "verify_customer_ready_authority env fs pkg receipt = Inr []" "customer_ready receipt"
  shows "\<exists>entries binding. sums_entries fs pkg = Inr entries \<and> authority_binding receipt binding \<and>
    authority_bound entries receipt binding"
proof -
  let ?auth = "get receipt ''lean_authority''" and ?fall = "get receipt ''lean_fallback''"
  from assms have one: "is_dict ?auth \<noteq> is_dict ?fall"
    by (auto simp: verify_customer_ready_authority_def Let_def split: if_split_asm)
  then obtain block where block: "(if is_dict ?auth then ?auth else ?fall) = JObj block"
    by (auto simp: is_dict_iff)
  with assms one obtain binding entries where b: "get block ''candidate_binding'' = JObj binding"
    "sums_entries fs pkg = Inr entries"
    "bound_problems (shown env (pkg @ [RECEIPT])) (map (\<lambda>(p, h). JStr h) entries) binding = []"
    "candidate_problems (shown env (pkg @ [RECEIPT])) receipt binding = []"
    by (auto simp: verify_customer_ready_authority_def Let_def bind_res_eq_Inr bound_hashes_Inr split: json.splits)
  have "authority_binding receipt binding"
    using one block b(1) unfolding authority_binding_def by (auto simp: is_dict_iff split: if_split_asm)
  moreover have "authority_bound entries receipt binding"
    using b(3,4) unfolding bound_problems_Nil candidate_problems_Nil authority_bound_def by auto
  ultimately show ?thesis using b(2) by blast
qed

text \<open>A metric packet: the binding receipt is about the receipt's candidate, and each axis is bound.\<close>

definition metrics_bound :: "(string \<times> string) list \<Rightarrow> obj \<Rightarrow> obj \<Rightarrow> bool" where
  "metrics_bound entries receipt binding \<longleftrightarrow>
     (\<exists>rc bc axes. get receipt ''candidate'' = JObj rc \<and> get binding ''candidate'' = JObj bc \<and>
        get binding ''axes'' = JObj axes \<and> (\<forall>key\<in>set CANDIDATE_KEYS. py_eq (get bc key) (get rc key)) \<and>
        (\<exists>mapped. get bc ''mapped_netlist_sha256'' = JStr mapped \<and> listed_hash entries mapped) \<and>
        (\<forall>axis\<in>{''area'', ''timing'', ''power''}. axis_bound entries bc axes axis) \<and>
        (\<exists>power. get axes ''power'' = JObj power \<and> power_boundary_ok power))"

lemma binding_Nil:
  assumes "binding_problems env fs pkg receipt binding = Inr []"
  shows "\<exists>entries. sums_entries fs pkg = Inr entries \<and> metrics_bound entries receipt binding"
proof -
  let ?rel = "shown env (pkg @ [BINDING])"
  from assms obtain rc bc axes entries where c: "get receipt ''candidate'' = JObj rc"
    "get binding ''candidate'' = JObj bc" "get binding ''axes'' = JObj axes" "sums_entries fs pkg = Inr entries"
    and p: "same_candidate_problems (shown env (pkg @ [RECEIPT])) ?rel rc bc = []"
      "nonempty_string (get bc ''mapped_netlist_sha256'')"
      "\<exists>h. get bc ''mapped_netlist_sha256'' = JStr h \<and> listed_hash entries h"
      "\<forall>axis\<in>{''area'', ''timing'', ''power''}. axis_problems ?rel entries bc axes axis = []"
      "power_problems ?rel axes = []"
    by (auto simp: binding_problems_def Let_def bind_res_eq_Inr split: json.splits)
  have axes: "\<forall>axis\<in>{''area'', ''timing'', ''power''}. axis_bound entries bc axes axis"
    using p(4) axis_problems_Nil by blast
  then obtain power where "get axes ''power'' = JObj power" by (auto simp: axis_bound_def)
  with p(5) have "\<exists>power. get axes ''power'' = JObj power \<and> power_boundary_ok power"
    by (simp add: power_problems_def)
  moreover have "\<forall>key\<in>set CANDIDATE_KEYS. py_eq (get bc key) (get rc key)"
    using p(1) by (auto simp: same_candidate_problems_def)
  ultimately show ?thesis
    using c p(3) axes unfolding metrics_bound_def by blast
qed

subsection \<open>Reaching every number of a receipt\<close>

text \<open>\<open>inside w v\<close>: \<open>w\<close> is the value \<open>v\<close> or stands inside it.\<close>

inductive inside :: "json \<Rightarrow> json \<Rightarrow> bool" where
  inside_self: "inside v v"
| inside_obj: "(k, v) \<in> set kvs \<Longrightarrow> inside w v \<Longrightarrow> inside w (JObj kvs)"
| inside_arr: "v \<in> set xs \<Longrightarrow> inside w v \<Longrightarrow> inside w (JArr xs)"

lemma concat_mapI: "x \<in> set xs \<Longrightarrow> t \<in> set (f x) \<Longrightarrow> t \<in> set (concat (map f xs))"
  by auto

lemma pairs_in_obj:
  assumes "(k, v) \<in> set kvs" "t \<in> set (gold_gate_numeric_pairs v (subkey p k))"
  shows "t \<in> set (gold_gate_numeric_pairs (JObj kvs) p)"
proof -
  have "t \<in> set (concat (map (\<lambda>(k, v). gold_gate_numeric_pairs v (subkey p k)) kvs))"
    using assms(1) by (rule concat_mapI) (simp only: case_prod_conv assms(2))
  then show ?thesis unfolding gold_gate_numeric_pairs.simps set_append by (rule UnI2)
qed

lemma pairs_in_arr:
  assumes "v \<in> set xs"
  obtains i where "\<And>t. t \<in> set (gold_gate_numeric_pairs v (subindex p i)) \<Longrightarrow> t \<in> set (gold_gate_numeric_pairs (JArr xs) p)"
proof -
  from assms obtain i where "i < length xs" "xs ! i = v" by (auto simp: in_set_conv_nth)
  then have i: "(v, i) \<in> set (zip xs [0..<length xs])" by (auto simp: set_zip)
  show thesis
  proof (rule that)
    fix t assume "t \<in> set (gold_gate_numeric_pairs v (subindex p i))"
    with i show "t \<in> set (gold_gate_numeric_pairs (JArr xs) p)"
      unfolding gold_gate_numeric_pairs.simps by (intro concat_mapI) (assumption, simp only: case_prod_conv)
  qed
qed

lemma pairs_reach:
  assumes "inside (JObj kvs) v" "numeric_keys ''gold'' kvs \<noteq> []" "numeric_keys ''gate'' kvs \<noteq> []"
  shows "\<exists>loc parent. (loc, parent, numeric_keys ''gold'' kvs @ numeric_keys ''gate'' kvs) \<in>
    set (gold_gate_numeric_pairs v p)"
  using assms
proof (induction "JObj kvs" v arbitrary: p rule: inside.induct)
  case inside_self
  then show ?case by (simp add: Let_def) blast
next
  case (inside_obj k v kws)
  then show ?case using pairs_in_obj[OF inside_obj(1)] by meson
next
  case (inside_arr v xs)
  from pairs_in_arr[OF inside_arr(1)] inside_arr(3)[OF inside_arr(4,5)] show ?case by meson
qed

text \<open>\<open>stands_at v p key_path w\<close>: the value \<open>w\<close> stands in \<open>v\<close>, itself at \<open>p\<close>, under that key path.\<close>

inductive stands_at :: "json \<Rightarrow> string \<Rightarrow> string \<Rightarrow> json \<Rightarrow> bool" where
  stands_here: "stands_at v p p v"
| stands_obj: "(k, v) \<in> set kvs \<Longrightarrow> stands_at v (subkey p k) q w \<Longrightarrow> stands_at (JObj kvs) p q w"
| stands_arr: "i < length xs \<Longrightarrow> stands_at (xs ! i) (subindex p i) q w \<Longrightarrow> stands_at (JArr xs) p q w"

lemma area_claims_reach:
  assumes "stands_at v p key_path w" "is_number w" "rx_search AREA_KEY key_path" "\<not> rx_search CELL_KEY key_path"
  shows "(key_path, w) \<in> set (receipt_area_claims v p)"
  using assms
proof (induction rule: stands_at.induct)
  case (stands_here v p)
  then show ?case by (cases v) (simp_all add: is_number_def)
next
  case (stands_obj k v kvs p q w)
  note claim = stands_obj.IH[OF stands_obj.prems]
  show ?case unfolding receipt_area_claims.simps
    using stands_obj.hyps(1) by (rule concat_mapI) (simp only: case_prod_conv claim)
next
  case (stands_arr i xs p q w)
  note claim = stands_arr.IH[OF stands_arr.prems]
  from stands_arr.hyps(1) have "(xs ! i, i) \<in> set (zip xs [0..<length xs])" by (auto simp: set_zip)
  then show ?case unfolding receipt_area_claims.simps by (rule concat_mapI) (simp only: case_prod_conv claim)
qed

text \<open>The shortest form of a claim is looked for anywhere, also inside a longer number.\<close>

lemma area_form_inside_number: "list_ex (contains ''Chip area: 15.04'') (claim_forms (JFloat ''5.0''))"
proof -
  have "contains ''Chip area: 15.04'' (format_claim 1 (JFloat ''5.0''))" by code_simp
  then show ?thesis by (simp add: claim_forms_def)
qed

section \<open>Properties\<close>

lemma load_object_dumps:
  assumes "read_bytes fs p = Some (json_dumps compact_style (JObj kvs))" "plain_json (JObj kvs)"
  shows "load_object env fs p = Inr (Inr kvs)"
proof -
  from read_text_printable[OF assms(1) printable_dumps(1)[OF assms(2)]] loads_dumps[OF styles_ok(1) assms(2), of "[]"]
  show ?thesis by (simp add: load_object_def read_text_res_def)
qed

lemma load_object_not_Nil: "load_object env fs p \<noteq> Inr (Inl [])"
  by (simp add: load_object_def bind_res_eq_Inr split: option.split json.split)


text \<open>C12: a customer-ready receipt without findings carries exactly one authority block whose gold and
  gate digests are listed in \<^verbatim>\<open>SHA256SUMS\<close> and whose gate is the receipt's candidate; and if it is a
  metric packet, area, timing and power are each measured on that candidate, with a shipped
  regressed candidate they react to.\<close>

theorem customer_ready_bound:
  assumes "load_object env fs (pkg @ [RECEIPT]) = Inr (Inr receipt)" "customer_ready receipt"
    and "verify_customer_ready_receipt env fs pkg = Inr []" "is_file fs (pkg @ [RECEIPT])"
  shows "\<exists>entries binding. sums_entries fs pkg = Inr entries \<and> authority_binding receipt binding \<and>
    authority_bound entries receipt binding \<and>
    (is_metric_packet receipt \<longrightarrow> (\<exists>b. load_object env fs (pkg @ [BINDING]) = Inr (Inr b) \<and>
       metrics_bound entries receipt b))"
proof -
  from assms have a: "verify_customer_ready_authority env fs pkg receipt = Inr []"
    and m: "verify_same_candidate_metric_binding env fs pkg receipt = Inr []"
    by (auto simp: verify_customer_ready_receipt_def bind_res_eq_Inr)
  from authority_Nil[OF a assms(2)] obtain entries binding where e: "sums_entries fs pkg = Inr entries"
    "authority_binding receipt binding" "authority_bound entries receipt binding" by blast
  have "\<exists>b. load_object env fs (pkg @ [BINDING]) = Inr (Inr b) \<and> metrics_bound entries receipt b"
    if metric: "is_metric_packet receipt"
  proof -
    from m metric assms(2) obtain loaded where l: "load_object env fs (pkg @ [BINDING]) = Inr loaded"
      "(case loaded of Inl errors \<Rightarrow> Inr errors | Inr b \<Rightarrow> binding_problems env fs pkg receipt b) = Inr []"
      by (auto simp: verify_same_candidate_metric_binding_def Let_def bind_res_eq_Inr split: if_split_asm)
    show ?thesis
    proof (cases loaded)
      case (Inl errors)
      with l have "load_object env fs (pkg @ [BINDING]) = Inr (Inl [])" by simp
      then show ?thesis by (simp add: load_object_not_Nil)
    next
      case (Inr b)
      with l binding_Nil[of env fs pkg receipt b] e(1) show ?thesis by auto
    qed
  qed
  with e show ?thesis by blast
qed


text \<open>C24: a customer-ready proof packet without findings has, in no object anywhere inside it, a pair of
  numbers under a gold and a gate key unless all these keys are cell counts.\<close>

theorem proof_packet_pairs_are_cells:
  assumes "customer_ready receipt" "\<not> is_metric_packet receipt"
    and "verify_proof_packet_no_smuggled_ppa env pkg receipt = []"
    and "inside (JObj kvs) (JObj receipt)" "(k, x) \<in> set kvs" "is_number x" "startswith (lower k) ''gold''"
    and "(k', y) \<in> set kvs" "is_number y" "startswith (lower k') ''gate''"
  shows "contains (lower k) ''cell'' \<and> contains (lower k') ''cell''"
proof -
  have k: "k \<in> set (numeric_keys ''gold'' kvs)" "k' \<in> set (numeric_keys ''gate'' kvs)"
    using assms(5-10) by (force simp: numeric_keys_def)+
  then have "numeric_keys ''gold'' kvs \<noteq> []" "numeric_keys ''gate'' kvs \<noteq> []" by auto
  from pairs_reach[OF assms(4) this, of "[]"] obtain loc parent where
    "(loc, parent, numeric_keys ''gold'' kvs @ numeric_keys ''gate'' kvs) \<in> set (gold_gate_numeric_pairs (JObj receipt) [])"
    by blast
  with assms(1-3) have "cell_count_context parent (numeric_keys ''gold'' kvs @ numeric_keys ''gate'' kvs)"
    unfolding verify_proof_packet_no_smuggled_ppa_def by (auto simp del: gold_gate_numeric_pairs.simps)
  with k show ?thesis by (auto simp: cell_count_context_def list_all_iff)
qed

text \<open>A proof packet with a before/after comparison of any metric in the objects \<^verbatim>\<open>gold\<close> and
  \<^verbatim>\<open>gate\<close>.\<close>

definition nested_pair_receipt :: "string \<Rightarrow> json \<Rightarrow> json \<Rightarrow> obj" where
  "nested_pair_receipt metric before after =
     [(''customer_ready'', JBool True), (''status'', JStr ''visible_output_equivalence''),
      (''ppa'', JObj [(''gold'', JObj [(metric, before)]), (''gate'', JObj [(metric, after)])])]"

lemma one_prefix: "startswith s ''gold'' \<Longrightarrow> \<not> startswith s ''gate''"
  by (auto simp: startswith_def prefix_def)

lemma nested_pair_numbers: "gold_gate_numeric_pairs (JObj (nested_pair_receipt metric (JFloat x) (JFloat y))) [] = []"
proof -
  have one: "numeric_keys ''gold'' [(metric, JFloat z)] = [] \<or> numeric_keys ''gate'' [(metric, JFloat z)] = []" for z
    using one_prefix[of "lower metric"] by (auto simp: numeric_keys_def)
  have none: "numeric_keys k [(a, JObj kvs), (b, JObj kws)] = []" "numeric_keys k [(c, JBool True), (d, JStr s), (a, JObj kvs)] = []"
    for k a b c d s kvs kws
    by (simp_all add: numeric_keys_def is_number_def)
  show ?thesis unfolding nested_pair_receipt_def using one by (auto simp: none Let_def)
qed


section \<open>Witnesses\<close>

text \<open>A metric packet with its binding receipt, and an area claim with its log.\<close>

definition demo_candidate :: obj where
  "demo_candidate = [(''candidate_sha256'', JStr ''b''), (''mapped_netlist_sha256'', JStr ''m''), (''selected_flow'', JStr ''f'')]"

definition demo_obj :: obj where
  "demo_obj = [(''customer_ready'', JBool True), (''status'', JStr ''area_timing_opensta_estimated_power''),
     (''candidate'', JObj demo_candidate), (''chip_area'', JFloat ''7.25''),
     (''lean_authority'', JObj [(''candidate_binding'', JObj [(''gold_sha256'', JStr ''a''), (''gate_sha256'', JStr ''b'')])])]"

definition demo_axis :: obj where
  "demo_axis = demo_candidate @ [(''instrument'', JStr ''i''), (''instrument_version'', JStr ''1''),
     (''metric'', JObj [(''methodology_boundary'', JStr ''not signoff, not measured workload'')]),
     (''negative_control'', JObj [(''axis_reds'', JBool True), (''regressed_candidate_sha256'', JStr ''r''),
        (''log_ref'', JStr ''./x.log'')])]"

definition demo_binding :: obj where
  "demo_binding = [(''candidate'', JObj demo_candidate),
     (''axes'', JObj [(''area'', JObj demo_axis), (''timing'', JObj demo_axis), (''power'', JObj demo_axis)])]"

definition demo_metric_package :: node where
  "demo_metric_package = Dir [(''p'', Dir [
     (RECEIPT, File (json_dumps compact_style (JObj demo_obj))),
     (BINDING, File (json_dumps compact_style (JObj demo_binding))), (''x.log'', File ''area 7.250000''),
     (SUMS, File (unlines [''a  gold.v'', ''b  gate.v'', ''m  mapped.v'', ''r  bad.v'', ''l  ./x.log'']))])]"

definition demo_entries :: "(string \<times> string) list" where
  "demo_entries = [(''gold.v'', ''a''), (''gate.v'', ''b''), (''mapped.v'', ''m''), (''bad.v'', ''r''), (''x.log'', ''l'')]"

lemma demo_metric_files:
  "read_bytes demo_metric_package [''p'', RECEIPT] = Some (json_dumps compact_style (JObj demo_obj))"
  "read_bytes demo_metric_package [''p'', BINDING] = Some (json_dumps compact_style (JObj demo_binding))"
  "is_file demo_metric_package [''p'', RECEIPT]" "is_file demo_metric_package [''p'', BINDING]"
  by (simp_all add: read_bytes_def is_file_def demo_metric_package_def RECEIPT_def BINDING_def)

lemma demo_plain: "plain_json (JObj demo_obj)" "plain_json (JObj demo_binding)"
  by code_simp+

lemma demo_sums: "sums_listed demo_metric_package [''p''] = Inr (map fst demo_entries)"
    "sums_entries demo_metric_package [''p''] = Inr demo_entries"
proof -
  have "sums_rows demo_metric_package [''p''] = sums_rows
      (Dir [(''p'', Dir [(SUMS, File (unlines [''a  gold.v'', ''b  gate.v'', ''m  mapped.v'', ''r  bad.v'', ''l  ./x.log'']))])]) [''p'']"
    by (simp add: sums_rows_def is_file_def read_text_res_def read_text_def read_bytes_def demo_metric_package_def
        RECEIPT_def BINDING_def SUMS_def)
  also have "\<dots> = Inr (map (\<lambda>(p, h). (h, p)) demo_entries)" by code_simp
  finally have r: "sums_rows demo_metric_package [''p''] = Inr (map (\<lambda>(p, h). (h, p)) demo_entries)" .
  show "sums_listed demo_metric_package [''p''] = Inr (map fst demo_entries)"
    "sums_entries demo_metric_package [''p''] = Inr demo_entries"
    unfolding sums_listed_def sums_entries_def r by code_simp+
qed

lemma demo_metric_read:
  "load_object demo_env demo_metric_package [''p'', RECEIPT] = Inr (Inr demo_obj)"
  "load_object demo_env demo_metric_package [''p'', BINDING] = Inr (Inr demo_binding)"
  using load_object_dumps demo_metric_files(1,2) demo_plain by blast+

lemma demo_customer_ready: "customer_ready demo_obj" "is_metric_packet demo_obj"
  by code_simp+

lemma demo_authority: "verify_customer_ready_authority demo_env demo_metric_package [''p''] demo_obj = Inr []"
proof -
  have g: "get demo_obj ''lean_authority'' = JObj [(''candidate_binding'', JObj [(''gold_sha256'', JStr ''a''), (''gate_sha256'', JStr ''b'')])]"
    "get demo_obj ''lean_fallback'' = JNull"
    "get [(''candidate_binding'', JObj [(''gold_sha256'', JStr ''a''), (''gate_sha256'', JStr ''b'')])] ''candidate_binding'' =
       JObj [(''gold_sha256'', JStr ''a''), (''gate_sha256'', JStr ''b'')]" by code_simp+
  have "bound_problems rel (map (\<lambda>(p, h). JStr h) demo_entries) [(''gold_sha256'', JStr ''a''), (''gate_sha256'', JStr ''b'')] = []"
    "candidate_problems rel demo_obj [(''gold_sha256'', JStr ''a''), (''gate_sha256'', JStr ''b'')] = []" for rel
    by code_simp+
  then show ?thesis
    using demo_customer_ready
    by (simp add: verify_customer_ready_authority_def g bound_hashes_def demo_sums Let_def is_dict_iff)
qed

lemma demo_axis_clean:
  assumes "get axes axis = JObj demo_axis"
  shows "axis_problems rel demo_entries demo_candidate axes axis = []"
proof -
  have "get demo_candidate key = get demo_axis key \<and> (\<exists>s. get demo_axis key = JStr s)" if "key \<in> set CANDIDATE_KEYS" for key
    using that by (auto simp: CANDIDATE_KEYS_def demo_axis_def demo_candidate_def get_def get_or_def)
  then have "concat (map (\<lambda>key. only (\<not> py_eq (get demo_axis key) (get demo_candidate key)) (m key)) CANDIDATE_KEYS) = []" for m
    unfolding concat_map_Nil_iff by fastforce
  moreover have "nonempty_string (get demo_axis ''instrument'')" "nonempty_string (get demo_axis ''instrument_version'')"
    "is_dict (get demo_axis ''metric'')" "truthy (get demo_axis ''metric'')"
    "get demo_axis ''negative_control'' = JObj [(''axis_reds'', JBool True), (''regressed_candidate_sha256'', JStr ''r''),
        (''log_ref'', JStr ''./x.log'')]"
    by code_simp+
  moreover have "negative_problems rel axis demo_entries demo_candidate [(''axis_reds'', JBool True),
      (''regressed_candidate_sha256'', JStr ''r''), (''log_ref'', JStr ''./x.log'')] = []"
    by code_simp
  ultimately show ?thesis unfolding axis_problems_def assms by simp
qed

lemma demo_binding_clean: "binding_problems demo_env demo_metric_package [''p''] demo_obj demo_binding = Inr []"
proof -
  let ?axes = "[(''area'', JObj demo_axis), (''timing'', JObj demo_axis), (''power'', JObj demo_axis)]"
  have g: "get demo_obj ''candidate'' = JObj demo_candidate" "get demo_binding ''candidate'' = JObj demo_candidate"
    "get demo_binding ''axes'' = JObj ?axes" "get demo_candidate ''mapped_netlist_sha256'' = JStr ''m''"
    by code_simp+
  have "same_candidate_problems r r' demo_candidate demo_candidate = []" for r r' by code_simp
  moreover have "power_problems r ?axes = []" for r by code_simp
  moreover have "nonempty_string (JStr ''m'')" "listed_hash demo_entries ''m''" by code_simp+
  moreover have "axis_problems r demo_entries demo_candidate ?axes axis = []" if "axis \<in> {''area'', ''timing'', ''power''}" for r axis
    using that by (intro demo_axis_clean) (auto simp: get_def get_or_def)
  ultimately show ?thesis by (simp add: binding_problems_def g demo_sums)
qed

lemma demo_proof_packet: "verify_proof_packet_no_smuggled_ppa demo_env [''p''] demo_obj = []"
  using demo_customer_ready by (simp add: verify_proof_packet_no_smuggled_ppa_def)

lemma demo_metric_clean: "verify_customer_ready_receipt demo_env demo_metric_package [''p''] = Inr []"
proof -
  have "verify_same_candidate_metric_binding demo_env demo_metric_package [''p''] demo_obj = Inr []"
    using demo_customer_ready demo_metric_files(4)
    by (simp add: verify_same_candidate_metric_binding_def demo_metric_read demo_binding_clean)
  then show ?thesis
    using demo_metric_files(3)
    by (simp add: verify_customer_ready_receipt_def demo_metric_read demo_authority demo_proof_packet)
qed

theorem customer_ready_bound_witness:
  "\<exists>entries b. sums_entries demo_metric_package [''p''] = Inr entries \<and> metrics_bound entries demo_obj b"
  using customer_ready_bound[of demo_env demo_metric_package "[''p'']" demo_obj] demo_metric_read demo_customer_ready
    demo_metric_clean demo_metric_files(3) by auto

lemma demo_logtext: "sha_bound_log_text demo_metric_package [''p''] = Inr ''area 7.250000''"
proof -
  have "filter (\<lambda>rel. endswith rel ''.log'') (sorted_set (map fst demo_entries)) = [''x.log'']"
    "join_path [''p''] ''x.log'' = [''p'', ''x.log'']" by code_simp+
  moreover have "read_bytes demo_metric_package [''p'', ''x.log''] = Some ''area 7.250000''"
    by (simp add: read_bytes_def demo_metric_package_def RECEIPT_def BINDING_def)
  moreover have "universal_newlines (decode_ignore ''area 7.250000'') = ''area 7.250000''" by code_simp
  ultimately show ?thesis
    by (simp add: sha_bound_log_text_def demo_sums(1) read_text_ignore_def List.map_filter_simps)
qed

lemma demo_receipt_text:
  "read_text demo_metric_package [''p'', RECEIPT] = Some (json_dumps compact_style (JObj demo_obj))"
  "json_loads (json_dumps compact_style (JObj demo_obj)) = Some (JObj demo_obj)"
  using read_text_printable[OF demo_metric_files(1) printable_dumps(1)[OF demo_plain(1)]]
    loads_dumps[OF styles_ok(1) demo_plain(1), of "[]"] by simp_all

lemma demo_metric_logs: "verify_receipt_bound_to_logs demo_env demo_metric_package [''p''] = Inr []"
proof -
  have "contains ''area 7.250000'' (format_claim 1 (JFloat ''7.25''))" by code_simp
  then have "list_ex (contains ''area 7.250000'') (claim_forms (JFloat ''7.25''))" by (simp add: claim_forms_def)
  moreover have "receipt_area_claims (JObj demo_obj) [] = [(''chip_area'', JFloat ''7.25'')]" by code_simp
  ultimately show ?thesis
    using demo_metric_files(3) demo_receipt_text demo_logtext
    by (simp add: verify_receipt_bound_to_logs_def read_text_res_def only_def)
qed


text \<open>A proof packet with its cell counts.\<close>

definition demo_cells :: obj where
  "demo_cells = [(''gold_cells'', JInt 2), (''gate_cells'', JInt 3)]"

definition demo_proof_obj :: obj where
  "demo_proof_obj = [(''customer_ready'', JBool True), (''status'', JStr ''visible_output_relation''),
     (''generic_cells'', JObj demo_cells)]"

theorem proof_packet_pairs_are_cells_witness:
  "contains (lower ''gold_cells'') ''cell'' \<and> contains (lower ''gate_cells'') ''cell''"
proof -
  have "inside (JObj demo_cells) (JObj demo_proof_obj)"
    by (rule inside_obj[of "''generic_cells''" "JObj demo_cells"]) (simp_all add: demo_proof_obj_def inside_self)
  moreover have "verify_proof_packet_no_smuggled_ppa demo_env [] demo_proof_obj = []" "customer_ready demo_proof_obj"
    "\<not> is_metric_packet demo_proof_obj" "(''gold_cells'', JInt 2) \<in> set demo_cells" "(''gate_cells'', JInt 3) \<in> set demo_cells"
    "is_number (JInt 2)" "is_number (JInt 3)" "startswith (lower ''gold_cells'') ''gold''"
    "startswith (lower ''gate_cells'') ''gate''" by code_simp+
  ultimately show ?thesis by (intro proof_packet_pairs_are_cells) assumption+
qed

end
