(* ===== verification/Citations.thy ===== *)
theory Citations
  imports ReceiptClaims
begin

text \<open>
  \<^verbatim>\<open>src/athanor/verify_public_receipts.py\<close>, third part: the hashes a receipt quotes. An entry of a
  JSON document that names a file and holds a digest is a citation (\<open>find_citations\<close>); it must be
  the digest of the file it resolves to, or have a supersession record whose chain of commits leads
  from the cited digest to the current one (\<open>verify_hops\<close>). Abbreviated digests in prose must match
  a digest of the package.

  git is a parameter (\<open>venv\<close>): the history's paths, a commit's subject and the content of a path at
  a commit. File names with a NUL, or longer than the system allows, are outside the model.
\<close>

section \<open>Digests and roles\<close>

text \<open>\<^verbatim>\<open>_HEX64.match\<close>.\<close>

definition hex64 :: "string \<Rightarrow> bool" where
  "hex64 s \<longleftrightarrow> length s = 64 \<and> list_all is_hex s"

definition SUPERSESSION_REQUIRED :: "string list" where
  "SUPERSESSION_REQUIRED = [''current'', ''superseded_by'', ''reason'']"

definition SUPERSESSION_NON_CITATION :: "string list" where
  "SUPERSESSION_NON_CITATION =
     [''current'', ''superseded_by'', ''reason'', ''hops'', ''commit'', ''subject'', ''git'']"

definition CITATION_ROLES :: "string list" where
  "CITATION_ROLES = [''files'', ''artifact_hashes'', ''dependencies'', ''negative_controls'']"

section \<open>Resolving a name\<close>

datatype base = BPackage | BRepo | BAny

datatype target = Unresolved | Resolved path base | Ambiguous

text \<open>The roots a name is tried against.\<close>

definition RESOLUTION_BASES :: "base \<Rightarrow> base list" where
  "RESOLUTION_BASES b = (case b of BPackage \<Rightarrow> [BPackage] | BRepo \<Rightarrow> [BRepo] | BAny \<Rightarrow> [BPackage, BRepo])"

definition root_of :: "venv \<Rightarrow> path \<Rightarrow> base \<Rightarrow> path" where
  "root_of env pkg b = (if b = BPackage then pkg else v_repo env)"

definition resolution_hits :: "venv \<Rightarrow> node \<Rightarrow> path \<Rightarrow> string \<Rightarrow> base list \<Rightarrow> (path \<times> base) list" where
  "resolution_hits env fs pkg name bs =
     foldl (\<lambda>hits b. let resolved = resolve (join_path (root_of env pkg b) name) in
         if is_file fs resolved \<and> resolved \<notin> fst ` set hits then hits @ [(resolved, b)] else hits) [] bs"

definition resolve_citation_target :: "venv \<Rightarrow> node \<Rightarrow> path \<Rightarrow> string \<Rightarrow> base \<Rightarrow> target" where
  "resolve_citation_target env fs pkg name b =
     (if name = [] then Unresolved
      else (case resolution_hits env fs pkg name (RESOLUTION_BASES b) of
          [] \<Rightarrow> Unresolved | [(p, w)] \<Rightarrow> Resolved p w | _ \<Rightarrow> Ambiguous))"

definition historical_paths :: "venv \<Rightarrow> string list" where
  "historical_paths env =
     (case v_git_log env of None \<Rightarrow> []
      | Some out \<Rightarrow> filter (\<lambda>l. l \<noteq> []) (map strip (splitlines out)))"

definition ever_existed :: "venv \<Rightarrow> path \<Rightarrow> string \<Rightarrow> base \<Rightarrow> bool" where
  "ever_existed env pkg name b \<longleftrightarrow>
     name \<noteq> [] \<and> list_ex (\<lambda>w.
       case relative_to (resolve (join_path (root_of env pkg w) name)) (v_repo env) of
         None \<Rightarrow> False | Some rel \<Rightarrow> as_posix rel \<in> set (historical_paths env)) (RESOLUTION_BASES b)"

section \<open>Finding the citations\<close>

record citation =
  ct_malformed :: bool
  ct_name :: json
  ct_sha :: json
  ct_path :: string
  ct_role :: string
  ct_owner :: obj
  ct_keyed_by :: string
  ct_base :: base
  ct_deleted :: bool

text \<open>The entries of a citation role; the value of a known role must be a map.\<close>

definition role_entry :: "obj \<Rightarrow> string \<Rightarrow> string \<Rightarrow> string \<times> json \<Rightarrow> citation" where
  "role_entry owner key place = (\<lambda>(entry, held).
     let (name, sha) = (case held of
         JObj kvs \<Rightarrow> if has_key kvs ''path'' \<or> has_key kvs ''sha256'' then (get kvs ''path'', get kvs ''sha256'')
                     else (JStr entry, held)
       | _ \<Rightarrow> (JStr entry, held))
     in \<lparr>ct_malformed = False, ct_name = name, ct_sha = sha, ct_path = place @ ''.'' @ entry, ct_role = key,
         ct_owner = owner, ct_keyed_by = entry, ct_base = BPackage, ct_deleted = False\<rparr>)"

definition role_citations :: "obj \<Rightarrow> string \<Rightarrow> string \<Rightarrow> json \<Rightarrow> citation list" where
  "role_citations owner key place value =
     (case value of
        JObj entries \<Rightarrow> map (role_entry owner key place) entries
      | _ \<Rightarrow> [\<lparr>ct_malformed = True, ct_name = JStr key, ct_sha = JNull, ct_path = place, ct_role = key,
               ct_owner = owner, ct_keyed_by = [], ct_base = BAny, ct_deleted = False\<rparr>])"

text \<open>A bare digest: a citation if its key resolves, or did once.\<close>

definition bare_citation :: "venv \<Rightarrow> node \<Rightarrow> path \<Rightarrow> obj \<Rightarrow> string \<Rightarrow> string \<Rightarrow> string \<Rightarrow> citation list" where
  "bare_citation env fs pkg owner key place sha =
     (let ct = \<lparr>ct_malformed = False, ct_name = JStr key, ct_sha = JStr sha, ct_path = place, ct_role = key,
            ct_owner = owner, ct_keyed_by = key, ct_base = BAny, ct_deleted = False\<rparr> in
      case resolve_citation_target env fs pkg key BAny of
        Resolved p w \<Rightarrow> [ct\<lparr>ct_base := w\<rparr>]
      | _ \<Rightarrow> if ever_existed env pkg key BAny then [ct\<lparr>ct_deleted := True\<rparr>] else [])"

definition path_sha_object :: "json \<Rightarrow> bool" where
  "path_sha_object v = (case v of JObj kvs \<Rightarrow> has_key kvs ''path'' \<and> has_key kvs ''sha256'' | _ \<Rightarrow> False)"

definition object_citation :: "obj \<Rightarrow> string \<Rightarrow> string \<Rightarrow> json \<Rightarrow> citation" where
  "object_citation owner key place value =
     \<lparr>ct_malformed = False,
      ct_name = (case value of JObj kvs \<Rightarrow> get kvs ''path'' | _ \<Rightarrow> JNull),
      ct_sha = (case value of JObj kvs \<Rightarrow> get kvs ''sha256'' | _ \<Rightarrow> JNull),
      ct_path = place, ct_role = key, ct_owner = owner, ct_keyed_by = key, ct_base = BAny, ct_deleted = False\<rparr>"

definition bare_digest :: "json \<Rightarrow> bool" where
  "bare_digest v = (case v of JStr s \<Rightarrow> hex64 s | _ \<Rightarrow> False)"

lemma json_size_filter:
  "size_list (size_prod (\<lambda>_. 0) size) (filter P kvs) \<le> size_list (size_prod (\<lambda>_. 0) size) kvs"
  by (induction kvs) auto

lemma json_size_residue [termination_simp]:
  assumes "(k, JObj kvs) \<in> set kws"
  shows "size_list (size_prod (\<lambda>_. 0) size) (filter P kvs) < size_list (size_prod (\<lambda>_. 0) size) kws"
  using json_size_obj[OF assms] json_size_filter[of P kvs] by simp

function (sequential) find_citations :: "venv \<Rightarrow> node \<Rightarrow> path \<Rightarrow> json \<Rightarrow> string \<Rightarrow> citation list" where
  "find_citations env fs pkg (JObj kvs) trail =
     concat (map (\<lambda>(key, value).
       let place = subkey trail key in
       if endswith key ''_supersession'' then
         (case value of
            JObj entry \<Rightarrow>
              find_citations env fs pkg (JObj (filter (\<lambda>(k, v). k \<notin> set SUPERSESSION_NON_CITATION) entry)) place
          | _ \<Rightarrow> [])
       else if key \<in> set CITATION_ROLES then role_citations kvs key place value
       else if path_sha_object value then [object_citation kvs key place value]
       else if bare_digest value then bare_citation env fs pkg kvs key place (py_str value)
       else find_citations env fs pkg value place) kvs)"
| "find_citations env fs pkg (JArr xs) trail =
     concat (map (\<lambda>(x, i). find_citations env fs pkg x (subindex trail i)) (zip xs [0..<length xs]))"
| "find_citations env fs pkg v trail = []"
  by pat_completeness auto
termination
  apply (relation "measure (\<lambda>(env, fs, pkg, v, trail). size v)")
  subgoal by simp
  subgoal premises p for env fs pkg kvs trail x key val place entry
    using p json_size_residue[of key entry kvs] by (simp add: case_prod_unfold)
  subgoal premises p for env fs pkg kvs trail x key val place
    using p json_size_obj[of key val kvs] by simp
  subgoal premises p for env fs pkg xs trail x val i
    using p json_size_zip[of val i xs] by auto
  done

declare find_citations.simps [simp del]

text \<open>A record excuses a citation if it stands beside it, under the entry's own key.\<close>

definition paired_supersession :: "citation \<Rightarrow> json" where
  "paired_supersession ct =
     (case get (ct_owner ct) (ct_role ct @ ''_supersession'') of
        JObj records \<Rightarrow> get records (if ct_keyed_by ct \<noteq> [] then ct_keyed_by ct else py_str (ct_name ct))
      | _ \<Rightarrow> JNull)"

definition unsafe_citation_name :: "json \<Rightarrow> string" where
  "unsafe_citation_name name =
     (if \<not> nonempty_string name then ''is empty''
      else if is_absolute (py_str name) \<or> CHR '':'' \<in> set (py_str name) then ''is an absolute path''
      else if ''..'' \<in> set (path_parts (py_str name)) then ''escapes the package''
      else [])"

section \<open>Abbreviated digests\<close>

definition ALNUM :: cclass where
  "ALNUM = cls [d09, AZ, az]"

text \<open>\<^verbatim>\<open>_CLAUSE\<close>: white space after a full stop, a semicolon or a colon, or newlines.\<close>

definition CLAUSE :: rx where
  "CLAUSE = RAlt (RSeq (RAssert (Behind (cls [single CHR ''.'', single CHR '';'', single CHR '':'']))) (rplus rspace))
     (rplus (rchar NL))"

definition LABEL :: rx where
  "LABEL = rseq [RAssert WordB,
     ralts [rseq [rlit_ci ''sha'', ropt (rchar CHR ''-''), rlit ''256''], rlit_ci ''digest'', rlit_ci ''mapped netlist'',
       rlit_ci ''candidate'', rlit_ci ''commit'',
       rseq [rlit_ci ''cache'', rcls [single CHR ''_'', single CHR '' ''], rlit_ci ''key''],
       rlit_ci ''revision'', rlit_ci ''ref''],
     RAssert WordB]"

definition TOKEN :: rx where
  "TOKEN = rseq [RAssert (NotBehind ALNUM), rtimes 8 (rcls_ci [d09, af]), rup_to 8 (rcls_ci [d09, af]),
     RAssert (NotAhead ALNUM)]"

definition ABBREV_LABEL_OR_TOKEN :: rx where
  "ABBREV_LABEL_OR_TOKEN = RAlt LABEL TOKEN"

definition ABBREV_COMMITISH :: rx where
  "ABBREV_COMMITISH = ralts [rlit_ci ''commit'',
     rseq [rlit_ci ''cache'', rcls [single CHR ''_'', single CHR '' ''], rlit_ci ''key''],
     rlit_ci ''revision'', rlit_ci ''ref'']"

text \<open>\<open>pattern.split\<close>: the texts between the matches.\<close>

fun pieces_between :: "pos \<Rightarrow> (pos \<times> pos) list \<Rightarrow> string list" where
  "pieces_between p [] = [snd p]"
| "pieces_between p ((a, b) # ms) = matched p a # pieces_between b ms"

definition rx_split :: "rx \<Rightarrow> string \<Rightarrow> string list" where
  "rx_split r s = pieces_between ([], s) (finditer r s)"

text \<open>The tokens of a clause, each under the label seen last, and not after a commit's label.\<close>

fun labelled_tokens :: "string option \<Rightarrow> (pos \<times> pos) list \<Rightarrow> string list" where
  "labelled_tokens label [] = []"
| "labelled_tokens label ((a, b) # ms) =
     (if match_at LABEL a \<noteq> None then labelled_tokens (Some (matched a b)) ms
      else (case label of
          None \<Rightarrow> labelled_tokens label ms
        | Some l \<Rightarrow> (if rx_fullmatch ABBREV_COMMITISH l then [] else [matched a b]) @ labelled_tokens label ms))"

definition abbreviated_tokens :: "string \<Rightarrow> string list" where
  "abbreviated_tokens s =
     concat (map (\<lambda>clause. labelled_tokens None (finditer ABBREV_LABEL_OR_TOKEN clause)) (rx_split CLAUSE s))"

fun find_abbreviated :: "json \<Rightarrow> string \<Rightarrow> (string \<times> string) list" where
  "find_abbreviated (JObj kvs) trail = concat (map (\<lambda>(k, v). find_abbreviated v (subkey trail k)) kvs)"
| "find_abbreviated (JArr xs) trail =
     concat (map (\<lambda>(x, i). find_abbreviated x (subindex trail i)) (zip xs [0..<length xs]))"
| "find_abbreviated (JStr s) trail = (if hex64 s then [] else map (Pair trail) (abbreviated_tokens s))"
| "find_abbreviated v trail = []"

section \<open>The chain of a supersession\<close>

text \<open>\<open>_commit_subject\<close> and \<open>_blob_sha256\<close>.\<close>

definition commit_subject :: "venv \<Rightarrow> string \<Rightarrow> string option" where
  "commit_subject env commit = map_option strip (v_subject env commit)"

definition blob_sha256 :: "venv \<Rightarrow> string \<Rightarrow> string \<Rightarrow> string option" where
  "blob_sha256 env commit rel = map_option sha256 (v_blob env (commit @ '':'' @ rel))"

definition immutable_commit :: "string \<Rightarrow> bool" where
  "immutable_commit s \<longleftrightarrow> 7 \<le> length s \<and> length s \<le> 40 \<and> list_all is_hex s"

definition subject_problems :: "venv \<Rightarrow> string \<Rightarrow> string \<Rightarrow> string \<Rightarrow> string list" where
  "subject_problems env hop commit subject =
     (case commit_subject env commit of
        None \<Rightarrow> [hop @ '' records a subject for '' @ commit @ '', which cannot be resolved to check it'']
      | Some actual \<Rightarrow> only (actual \<noteq> strip subject)
          (hop @ '' says '' @ commit @ '' is '' @ repr_str (strip subject) @ '', but that commit is '' @ repr_str actual))"

definition commit_problems :: "venv \<Rightarrow> string \<Rightarrow> obj \<Rightarrow> string list" where
  "commit_problems env hop record =
     (let commit = get record ''commit'' in
      if \<not> nonempty_string commit then [hop @ '' does not name a commit'']
      else if \<not> immutable_commit (strip (py_str commit)) then
        [hop @ '' names '' @ repr_str (strip (py_str commit)) @ '', which is a MUTABLE ref -- a published chain must '' @
         ''cite an immutable commit id, or the record silently changes meaning as the branch moves'']
      else (case get record ''subject'' of
          JStr subject \<Rightarrow> subject_problems env hop (strip (py_str commit)) subject
        | _ \<Rightarrow> []))"

text \<open>The content of the file at a commit and at its parent.\<close>

definition blob_problems :: "venv \<Rightarrow> string \<Rightarrow> string \<Rightarrow> json \<Rightarrow> string \<Rightarrow> string \<Rightarrow> string list" where
  "blob_problems env hop rel commit previous got =
     (if \<not> nonempty_string commit then []
      else let c = strip (py_str commit) in
       (case blob_sha256 env c rel of
          None \<Rightarrow> [hop @ '' names '' @ py_str commit @ '', which cannot be resolved'']
        | Some actual \<Rightarrow>
            if actual \<noteq> lower got then
              [hop @ '' claims '' @ py_str commit @ '' produced '' @ take 12 got @ '', but it produced '' @ take 12 actual]
            else (case blob_sha256 env (c @ ''^'') rel of
                None \<Rightarrow>
                  [hop @ '' claims a predecessor '' @ take 12 previous @ '', but '' @ py_str commit @
                   '' has no parent content for this file (added there), so the predecessor is unproved'']
              | Some before \<Rightarrow> only (before \<noteq> lower previous)
                  (hop @ '' does not continue from '' @ take 12 previous @ '' -- '' @ py_str commit @ '' began at '' @
                   take 12 before @ '', so a transition is missing''))))"

text \<open>The problems of the hops from \<open>index\<close> on, and the digest the chain ends at.\<close>

fun walk_hops :: "venv \<Rightarrow> string \<Rightarrow> nat \<Rightarrow> string \<Rightarrow> json list \<Rightarrow> string list \<times> string" where
  "walk_hops env rel index previous [] = ([], previous)"
| "walk_hops env rel index previous (JObj record # hops) =
     (let hop = ''hop '' @ dec index; c = commit_problems env hop record in
      case get record ''resulting_sha256'' of
        JStr got \<Rightarrow>
          (if hex64 got then
             (let (ps, last_sha) = walk_hops env rel (Suc index) got hops in
              (c @ only (lower got = lower previous) (hop @ '' records no change'') @
               blob_problems env hop rel (get record ''commit'') previous got @ ps, last_sha))
           else (let (ps, last_sha) = walk_hops env rel (Suc index) previous hops in
             (c @ [hop @ '' has no valid resulting_sha256''] @ ps, last_sha)))
      | _ \<Rightarrow> (let (ps, last_sha) = walk_hops env rel (Suc index) previous hops in
             (c @ [hop @ '' has no valid resulting_sha256''] @ ps, last_sha)))"
| "walk_hops env rel index previous (v # hops) =
     (let (ps, last_sha) = walk_hops env rel (Suc index) previous hops in
      ((''hop '' @ dec index @ '' is not a record'') # ps, last_sha))"

definition first_transition_problems :: "obj \<Rightarrow> json list \<Rightarrow> string list" where
  "first_transition_problems record hops =
     (case hops of
        JObj first # _ \<Rightarrow>
          (let commit = get first ''commit'' in
           case get_or (JStr []) record ''superseded_by'' of
             JStr by \<Rightarrow> only (nonempty_string commit \<and> \<not> contains by (strip (py_str commit)))
               (''superseded_by does not name the FIRST transition '' @ py_str commit)
           | _ \<Rightarrow> [])
      | _ \<Rightarrow> [])"

definition verify_hops :: "venv \<Rightarrow> obj \<Rightarrow> string \<Rightarrow> string \<Rightarrow> string \<Rightarrow> string list" where
  "verify_hops env record cited current rel =
     (if get record ''hops'' = JNull then [''records no hops, so its provenance claim is unverifiable'']
      else if \<not> v_git_dir env then [''cannot be verified: no git history available to check it against'']
      else (case get record ''hops'' of
          JArr hops \<Rightarrow>
            (if hops = [] then [''has a malformed hops chain'']
             else let (ps, last_sha) = walk_hops env rel 1 cited hops in
               ps @ only (lower last_sha \<noteq> lower current) ''does not end at the file's current content'' @
               first_transition_problems record hops)
        | _ \<Rightarrow> [''has a malformed hops chain'']))"

section \<open>Checking a citation\<close>

text \<open>The record beside a citation that matches its file.\<close>

definition settled_problems :: "venv \<Rightarrow> string \<Rightarrow> string \<Rightarrow> string \<Rightarrow> string \<Rightarrow> json \<Rightarrow> string list" where
  "settled_problems env rel place relt got record =
     (case record of
        JNull \<Rightarrow> []
      | JObj entry \<Rightarrow>
          (case get entry ''prior_sha256'' of
             JStr prior \<Rightarrow>
               (if \<not> hex64 prior then
                  [rel @ '': supersession beside the matching citation at '' @ place @ '' does not record a valid prior_sha256 '' @
                   ''-- a settled record must say WHICH value it replaced, or it documents nothing'']
                else if lower prior = got then
                  [rel @ '': supersession beside the citation at '' @ place @
                   '' records a prior_sha256 equal to the current content, so it supersedes nothing'']
                else if lower (py_str (get_or (JStr []) entry ''current'')) \<noteq> got then
                  [rel @ '': supersession beside the matching citation at '' @ place @ '' claims current '' @
                   py_str (get entry ''current'') @ '', file is '' @ got]
                else map (\<lambda>defect. rel @ '': supersession chain for the citation at '' @ place @ '' '' @ defect)
                  (verify_hops env entry prior got relt))
           | _ \<Rightarrow>
               [rel @ '': supersession beside the matching citation at '' @ place @ '' does not record a valid prior_sha256 '' @
                ''-- a settled record must say WHICH value it replaced, or it documents nothing''])
      | _ \<Rightarrow> [rel @ '': citation at '' @ place @ '' matches the file, but its supersession entry is not a record''])"

definition missing_fields :: "obj \<Rightarrow> string list" where
  "missing_fields entry = filter (\<lambda>f. \<not> nonempty_string (get entry f)) SUPERSESSION_REQUIRED"

text \<open>A citation that does not match its file: the finding the baseline enumerates, or its record.\<close>

definition stale_line :: "string \<Rightarrow> string \<Rightarrow> string \<Rightarrow> string \<Rightarrow> string" where
  "stale_line rel place sha got =
     rel @ '': STALE citation at '' @ place @ '': receipt says '' @ sha @ '', file is '' @ got"

definition stale_problems :: "venv \<Rightarrow> string \<Rightarrow> string \<Rightarrow> string \<Rightarrow> string \<Rightarrow> string \<Rightarrow> json \<Rightarrow> string list" where
  "stale_problems env rel place relt sha got record =
     (case record of
        JObj entry \<Rightarrow>
          (if missing_fields entry \<noteq> [] then
             [rel @ '': supersession record for the citation at '' @ place @ '' is missing '' @
              join '', '' (missing_fields entry) @ '' -- a supersession must say what changed it and why'']
           else if lower (py_str (get entry ''current'')) \<noteq> got then
             [rel @ '': supersession for the citation at '' @ place @ '' claims current '' @ py_str (get entry ''current'') @
              '', file is '' @ got]
           else map (\<lambda>defect. rel @ '': supersession chain for the citation at '' @ place @ '' '' @ defect)
             (verify_hops env entry sha got relt))
      | _ \<Rightarrow> [stale_line rel place sha got])"

definition file_problems :: "venv \<Rightarrow> node \<Rightarrow> string \<Rightarrow> citation \<Rightarrow> string \<Rightarrow> path \<Rightarrow> string list" where
  "file_problems env fs rel ct sha target =
     (case relative_to target (v_repo env) of
        None \<Rightarrow> [rel @ '': citation at '' @ ct_path ct @ '' escapes the repository'']
      | Some r \<Rightarrow>
          (case read_bytes fs target of None \<Rightarrow> []
           | Some b \<Rightarrow>
               let got = sha256 b; record = paired_supersession ct in
               if got = sha then settled_problems env rel (ct_path ct) (as_posix r) got record
               else stale_problems env rel (ct_path ct) (as_posix r) sha got record))"

definition named_problems :: "venv \<Rightarrow> node \<Rightarrow> path \<Rightarrow> string \<Rightarrow> citation \<Rightarrow> string \<Rightarrow> string \<Rightarrow> string list" where
  "named_problems env fs dir rel ct name sha =
     (if ct_deleted ct then
        [rel @ '': BROKEN EVIDENCE LINK -- citation at '' @ ct_path ct @ '' names '' @ name @ '' with '' @ take 12 sha @
         '', but that file no longer exists in the tree: the receipt attests to something that has been deleted'']
      else (case resolve_citation_target env fs dir name (ct_base ct) of
          Ambiguous \<Rightarrow>
            [rel @ '': citation at '' @ ct_path ct @ '' names '' @ name @ '', which resolves BOTH package-relative and '' @
             ''repo-relative to different files -- the entry does not say which it means, and guessing produces a '' @
             ''false STALE against whichever one it is not'']
        | Unresolved \<Rightarrow>
            (if ever_existed env dir name (ct_base ct) then
               [rel @ '': BROKEN EVIDENCE LINK -- citation at '' @ ct_path ct @ '' names '' @ name @
                '', which existed in history but is not in the tree now'']
             else [rel @ '': citation at '' @ ct_path ct @ '' names '' @ name @ '', which is not in the package''])
        | Resolved p w \<Rightarrow> file_problems env fs rel ct sha p))"

definition citation_problems :: "venv \<Rightarrow> node \<Rightarrow> path \<Rightarrow> string \<Rightarrow> citation \<Rightarrow> string list" where
  "citation_problems env fs dir rel ct =
     (if ct_malformed ct then
        [rel @ '': citation role at '' @ ct_path ct @ '' is not a map of citations -- a known role with a malformed '' @
         ''shape must be LOUD, not skipped'']
      else if unsafe_citation_name (ct_name ct) \<noteq> [] then
        [rel @ '': citation at '' @ ct_path ct @ '' names a path that '' @ unsafe_citation_name (ct_name ct)]
      else if \<not> bare_digest (ct_sha ct) then
        [rel @ '': citation at '' @ ct_path ct @ '' does not carry a sha256 value'']
      else named_problems env fs dir rel ct (py_str (ct_name ct)) (lower (py_str (ct_sha ct))))"

section \<open>The documents of a package\<close>

definition is_json_name :: "string \<Rightarrow> bool" where
  "is_json_name name \<longleftrightarrow> endswith (lower name) ''.json'' \<and> 5 < length name"

definition json_documents :: "node \<Rightarrow> path \<Rightarrow> path list" where
  "json_documents fs pkg = filter (\<lambda>p. is_json_name (path_name p)) (package_files fs pkg)"

text \<open>The digests an abbreviation may stand for.\<close>

definition known_digests :: "node \<Rightarrow> path \<Rightarrow> string list res" where
  "known_digests fs pkg =
     bind_res (sums_entries fs pkg) (\<lambda>entries.
       Inr (map snd entries @ List.map_filter (\<lambda>p. map_option sha256 (read_bytes fs (pkg @ p))) (package_files fs pkg)))"

definition abbreviation_problems :: "string \<Rightarrow> string list \<Rightarrow> json \<Rightarrow> string list" where
  "abbreviation_problems rel known doc =
     concat (map (\<lambda>(place, token). only (\<not> list_ex (\<lambda>h. startswith h token) known)
       (rel @ '': abbreviated citation '' @ token @ '' at '' @ place @ '' matches no pinned hash or file in this package''))
       (find_abbreviated doc []))"

definition document_problems :: "venv \<Rightarrow> node \<Rightarrow> path \<Rightarrow> path \<Rightarrow> string list res" where
  "document_problems env fs pkg p =
     (let rel = shown env (pkg @ p) in
      case read_text fs (pkg @ p) of
        None \<Rightarrow> Inr [rel @ '': could not read for citation check ('' @ v_read_error env (pkg @ p) @ '')'']
      | Some text \<Rightarrow>
          (case json_loads text of
             None \<Rightarrow> Inr [rel @ '': could not parse for citation check ('' @ v_json_error env text @ '')'']
           | Some doc \<Rightarrow>
               let dir = pkg @ butlast p in
               bind_res (known_digests fs pkg) (\<lambda>known.
                 Inr (concat (map (citation_problems env fs dir rel) (find_citations env fs dir doc [])) @
                   abbreviation_problems rel known doc))))"

definition verify_hash_citations :: "venv \<Rightarrow> node \<Rightarrow> path \<Rightarrow> string list res" where
  "verify_hash_citations env fs pkg =
     bind_res (map_res (document_problems env fs pkg) (json_documents fs pkg)) (\<lambda>rows. Inr (concat rows))"

section \<open>What a clean chain says\<close>

text \<open>One hop: a named, immutable commit after which the file has the digest the hop records, and before
  which it had the previous one; a recorded subject is the commit's.\<close>

definition hop_holds :: "venv \<Rightarrow> string \<Rightarrow> string \<Rightarrow> obj \<Rightarrow> string \<Rightarrow> bool" where
  "hop_holds env rel previous record got \<longleftrightarrow>
     get record ''resulting_sha256'' = JStr got \<and> hex64 got \<and> lower got \<noteq> lower previous \<and>
     (\<exists>commit. get record ''commit'' = JStr commit \<and> strip commit \<noteq> [] \<and> immutable_commit (strip commit) \<and>
        (case get record ''subject'' of JStr s \<Rightarrow> commit_subject env (strip commit) = Some (strip s) | _ \<Rightarrow> True) \<and>
        blob_sha256 env (strip commit) rel = Some (lower got) \<and>
        blob_sha256 env (strip commit @ ''^'') rel = Some (lower previous))"

inductive lineage :: "venv \<Rightarrow> string \<Rightarrow> string \<Rightarrow> json list \<Rightarrow> string \<Rightarrow> bool" for env rel where
  lineage_end: "lineage env rel h [] h"
| lineage_hop: "hop_holds env rel previous record got \<Longrightarrow> lineage env rel got hops last_sha \<Longrightarrow>
    lineage env rel previous (JObj record # hops) last_sha"

inductive_simps lineage_Nil: "lineage env rel h [] h'"
inductive_simps lineage_Cons: "lineage env rel h (v # hops) h'"

lemma commit_problems_Nil:
  "commit_problems env hop record = [] \<longleftrightarrow>
     (\<exists>commit. get record ''commit'' = JStr commit \<and> strip commit \<noteq> [] \<and> immutable_commit (strip commit) \<and>
        (case get record ''subject'' of JStr s \<Rightarrow> commit_subject env (strip commit) = Some (strip s) | _ \<Rightarrow> True))"
  by (auto simp: commit_problems_def Let_def nonempty_string_iff subject_problems_def split: json.splits option.splits)

lemma blob_problems_Nil:
  "strip commit \<noteq> [] \<Longrightarrow> blob_problems env hop rel (JStr commit) previous got = [] \<longleftrightarrow>
     blob_sha256 env (strip commit) rel = Some (lower got) \<and>
     blob_sha256 env (strip commit @ ''^'') rel = Some (lower previous)"
  by (auto simp: blob_problems_def Let_def nonempty_string_def split: option.splits)

lemma walk_hops_Nil:
  "walk_hops env rel index previous hops = ([], last_sha) \<longleftrightarrow> lineage env rel previous hops last_sha"
proof (induction env rel index previous hops arbitrary: last_sha rule: walk_hops.induct)
  case (2 env rel index previous rc hops)
  show ?case
  proof (cases "\<exists>got. get rc ''resulting_sha256'' = JStr got \<and> hex64 got")
    case True
    then obtain got where got: "get rc ''resulting_sha256'' = JStr got" "hex64 got" by blast
    note IH = "2.IH"(5)[OF refl refl got]
    show ?thesis
      using got IH[of last_sha]
      by (auto simp: lineage_Cons hop_holds_def commit_problems_Nil blob_problems_Nil Let_def split: prod.splits)
  next
    case False
    then show ?thesis
      by (auto simp: lineage_Cons hop_holds_def Let_def split: prod.splits json.splits if_splits)
  qed
qed (auto simp: lineage_Nil lineage_Cons split: prod.splits)

lemma verify_hops_Nil:
  "verify_hops env record cited current rel = [] \<longleftrightarrow>
     v_git_dir env \<and> (\<exists>hops last_sha. get record ''hops'' = JArr hops \<and> hops \<noteq> [] \<and>
       lineage env rel cited hops last_sha \<and> lower last_sha = lower current \<and> first_transition_problems record hops = [])"
  unfolding verify_hops_def walk_hops_Nil[of _ _ 1, symmetric]
  by (auto simp: Let_def split: json.splits prod.splits)

section \<open>What a clean citation says\<close>

lemma resolution_hits_files:
  assumes "(p, w) \<in> set (resolution_hits env fs pkg name bs)"
  shows "is_file fs p"
proof -
  let ?step = "\<lambda>hits b. let resolved = resolve (join_path (root_of env pkg b) name) in
         if is_file fs resolved \<and> resolved \<notin> fst ` set hits then hits @ [(resolved, b)] else hits"
  have "fst ` set hits \<subseteq> {p. is_file fs p} \<Longrightarrow> fst ` set (foldl ?step hits bs) \<subseteq> {p. is_file fs p}" for hits
    by (induction bs arbitrary: hits) (simp_all add: Let_def)
  from this[of "[]"] assms show ?thesis by (force simp: resolution_hits_def)
qed

lemma resolved_is_file:
  assumes "resolve_citation_target env fs pkg name b = Resolved p w"
  shows "is_file fs p"
proof -
  from assms have "resolution_hits env fs pkg name (RESOLUTION_BASES b) = [(p, w)]"
    by (auto simp: resolve_citation_target_def split: if_splits list.splits)
  then show ?thesis using resolution_hits_files by (metis list.set_intros(1))
qed

text \<open>The citation names a file of the repository by exactly one reading, and its digest is the one the
  file has, or the recorded commits lead from it to the one the file has.\<close>

definition superseded_to :: "venv \<Rightarrow> string \<Rightarrow> citation \<Rightarrow> string \<Rightarrow> string \<Rightarrow> bool" where
  "superseded_to env rel ct sha got \<longleftrightarrow>
     (\<exists>entry hops last_sha. paired_supersession ct = JObj entry \<and> missing_fields entry = [] \<and>
        lower (py_str (get entry ''current'')) = got \<and> get entry ''hops'' = JArr hops \<and> hops \<noteq> [] \<and>
        lineage env rel sha hops last_sha \<and> lower last_sha = got)"

definition supported :: "venv \<Rightarrow> node \<Rightarrow> path \<Rightarrow> citation \<Rightarrow> bool" where
  "supported env fs dir ct \<longleftrightarrow>
     (\<exists>name sha target w rel b. ct_name ct = JStr name \<and> ct_sha ct = JStr sha \<and> hex64 sha \<and>
        resolve_citation_target env fs dir name (ct_base ct) = Resolved target w \<and>
        relative_to target (v_repo env) = Some rel \<and> read_bytes fs target = Some b \<and>
        (sha256 b = lower sha \<or> superseded_to env (as_posix rel) ct (lower sha) (sha256 b)))"

lemma stale_problems_Nil:
  "stale_problems env rel place relt sha (sha256 b) (paired_supersession ct) = [] \<Longrightarrow>
     superseded_to env relt ct sha (sha256 b)"
  unfolding superseded_to_def stale_problems_def
  by (auto simp: verify_hops_Nil split: json.splits if_splits)

lemma citation_problems_Nil:
  assumes "citation_problems env fs dir rel ct = []"
  shows "supported env fs dir ct"
proof -
  from assms have m: "\<not> ct_malformed ct" "unsafe_citation_name (ct_name ct) = []" "bare_digest (ct_sha ct)"
    and n: "named_problems env fs dir rel ct (py_str (ct_name ct)) (lower (py_str (ct_sha ct))) = []"
    by (auto simp: citation_problems_def split: if_splits)
  from m obtain name sha where ns: "ct_name ct = JStr name" "ct_sha ct = JStr sha" "hex64 sha"
    by (auto simp: unsafe_citation_name_def nonempty_string_iff bare_digest_def split: if_splits json.splits)
  with n obtain target w where t: "resolve_citation_target env fs dir name (ct_base ct) = Resolved target w"
    and f: "file_problems env fs rel ct (lower sha) target = []"
    by (auto simp: named_problems_def split: if_splits target.splits)
  from resolved_is_file[OF t] obtain b where b: "read_bytes fs target = Some b"
    by (auto simp: read_bytes_iff_file)
  from f b obtain r where r: "relative_to target (v_repo env) = Some r"
    by (auto simp: file_problems_def split: option.splits)
  have "sha256 b = lower sha \<or> superseded_to env (as_posix r) ct (lower sha) (sha256 b)"
    using f b r stale_problems_Nil by (auto simp: file_problems_def Let_def split: if_splits)
  with ns t r b show ?thesis unfolding supported_def by blast
qed

text \<open>\<open>visited v p kvs q\<close>: the search of \<open>v\<close> at \<open>p\<close> comes to the object \<open>kvs\<close> at \<open>q\<close>.\<close>

definition descended :: "string \<Rightarrow> json \<Rightarrow> bool" where
  "descended key v \<longleftrightarrow>
     \<not> endswith key ''_supersession'' \<and> key \<notin> set CITATION_ROLES \<and> \<not> path_sha_object v \<and> \<not> bare_digest v"

inductive visited :: "json \<Rightarrow> string \<Rightarrow> obj \<Rightarrow> string \<Rightarrow> bool" where
  visit_here: "visited (JObj kvs) p kvs p"
| visit_obj: "(key, v) \<in> set kvs \<Longrightarrow> descended key v \<Longrightarrow> visited v (subkey p key) kws q \<Longrightarrow>
    visited (JObj kvs) p kws q"
| visit_record: "(key, JObj entry) \<in> set kvs \<Longrightarrow> endswith key ''_supersession'' \<Longrightarrow>
    visited (JObj (filter (\<lambda>(k, v). k \<notin> set SUPERSESSION_NON_CITATION) entry)) (subkey p key) kws q \<Longrightarrow>
    visited (JObj kvs) p kws q"
| visit_arr: "i < length xs \<Longrightarrow> visited (xs ! i) (subindex p i) kws q \<Longrightarrow> visited (JArr xs) p kws q"

lemma find_obj_entry:
  assumes "(key, v) \<in> set kvs"
    and "ct \<in> set (let place = subkey q key in
       if endswith key ''_supersession'' then
         (case v of
            JObj entry \<Rightarrow>
              find_citations env fs pkg (JObj (filter (\<lambda>(k, v). k \<notin> set SUPERSESSION_NON_CITATION) entry)) place
          | _ \<Rightarrow> [])
       else if key \<in> set CITATION_ROLES then role_citations kvs key place v
       else if path_sha_object v then [object_citation kvs key place v]
       else if bare_digest v then bare_citation env fs pkg kvs key place (py_str v)
       else find_citations env fs pkg v place)"
  shows "ct \<in> set (find_citations env fs pkg (JObj kvs) q)"
  by (subst find_citations.simps(1)) (rule concat_mapI[OF assms(1)], simp only: case_prod_conv assms(2))

lemma find_at_visited:
  assumes "visited v p kvs q"
  shows "set (find_citations env fs pkg (JObj kvs) q) \<subseteq> set (find_citations env fs pkg v p)"
  using assms
proof (induction rule: visited.induct)
  case (visit_obj key v kvs p kws q)
  have "set (find_citations env fs pkg v (subkey p key)) \<subseteq> set (find_citations env fs pkg (JObj kvs) p)"
    using visit_obj.hyps(2) by (intro subsetI find_obj_entry[OF visit_obj.hyps(1)]) (simp add: descended_def)
  with visit_obj.IH show ?case by blast
next
  case (visit_record key entry kvs p kws q)
  have "set (find_citations env fs pkg (JObj (filter (\<lambda>(k, v). k \<notin> set SUPERSESSION_NON_CITATION) entry)) (subkey p key))
      \<subseteq> set (find_citations env fs pkg (JObj kvs) p)"
    using visit_record.hyps(2) by (intro subsetI find_obj_entry[OF visit_record.hyps(1)]) simp
  with visit_record.IH show ?case by blast
next
  case (visit_arr i xs p kws q)
  then have i: "(xs ! i, i) \<in> set (zip xs [0..<length xs])" by (auto simp: set_zip)
  have "set (find_citations env fs pkg (xs ! i) (subindex p i)) \<subseteq> set (find_citations env fs pkg (JArr xs) p)"
    by (subst find_citations.simps(2)) (intro subsetI concat_mapI[OF i], simp only: case_prod_conv)
  with visit_arr.IH show ?case by blast
qed simp

lemma visited_object:
  assumes "visited doc [] kvs q" "(key, v) \<in> set kvs" "\<not> endswith key ''_supersession''" "key \<notin> set CITATION_ROLES"
    and "path_sha_object v"
  shows "object_citation kvs key (subkey q key) v \<in> set (find_citations env fs pkg doc [])"
proof -
  have "object_citation kvs key (subkey q key) v \<in> set (find_citations env fs pkg (JObj kvs) q)"
    using assms(3-5) by (intro find_obj_entry[OF assms(2)]) simp
  with find_at_visited[OF assms(1)] show ?thesis by blast
qed

lemma visited_role:
  assumes "visited doc [] kvs q" "(key, v) \<in> set kvs" "\<not> endswith key ''_supersession''" "key \<in> set CITATION_ROLES"
  shows "set (role_citations kvs key (subkey q key) v) \<subseteq> set (find_citations env fs pkg doc [])"
proof -
  have "set (role_citations kvs key (subkey q key) v) \<subseteq> set (find_citations env fs pkg (JObj kvs) q)"
    using assms(3,4) by (intro subsetI find_obj_entry[OF assms(2)]) simp
  with find_at_visited[OF assms(1)] show ?thesis by blast
qed

lemma visited_bare:
  assumes "visited doc [] kvs q" "(key, v) \<in> set kvs" "\<not> endswith key ''_supersession''" "key \<notin> set CITATION_ROLES"
    and "\<not> path_sha_object v" "bare_digest v"
  shows "set (bare_citation env fs pkg kvs key (subkey q key) (py_str v)) \<subseteq> set (find_citations env fs pkg doc [])"
proof -
  have "set (bare_citation env fs pkg kvs key (subkey q key) (py_str v)) \<subseteq> set (find_citations env fs pkg (JObj kvs) q)"
    using assms(3-6) by (intro subsetI find_obj_entry[OF assms(2)]) simp
  with find_at_visited[OF assms(1)] show ?thesis by blast
qed

text \<open>\<open>text_at v p q s\<close>: the text \<open>s\<close> stands in \<open>v\<close>, which is at \<open>p\<close>, at the place \<open>q\<close>.\<close>

inductive text_at :: "json \<Rightarrow> string \<Rightarrow> string \<Rightarrow> string \<Rightarrow> bool" where
  text_here: "text_at (JStr s) p p s"
| text_obj: "(key, v) \<in> set kvs \<Longrightarrow> text_at v (subkey p key) q s \<Longrightarrow> text_at (JObj kvs) p q s"
| text_arr: "i < length xs \<Longrightarrow> text_at (xs ! i) (subindex p i) q s \<Longrightarrow> text_at (JArr xs) p q s"

lemma abbreviated_at:
  assumes "text_at v p q s" "\<not> hex64 s" "token \<in> set (abbreviated_tokens s)"
  shows "(q, token) \<in> set (find_abbreviated v p)"
  using assms
proof (induction rule: text_at.induct)
  case (text_obj key v kvs p q s)
  then show ?case by (auto simp: case_prod_unfold intro!: bexI[of _ "(key, v)"])
next
  case (text_arr i xs p q s)
  then have "(xs ! i, i) \<in> set (zip xs [0..<length xs])" by (auto simp: set_zip)
  with text_arr show ?case by (auto simp: case_prod_unfold intro!: bexI[of _ "(xs ! i, i)"])
qed simp

text \<open>The digests of the package: those its manifest lists, and those its files have.\<close>

definition pinned :: "node \<Rightarrow> path \<Rightarrow> string \<Rightarrow> bool" where
  "pinned fs pkg h \<longleftrightarrow>
     (\<exists>entries name. sums_entries fs pkg = Inr entries \<and> (name, h) \<in> set entries) \<or>
     (\<exists>p\<in>set (package_files fs pkg). \<exists>b. read_bytes fs (pkg @ p) = Some b \<and> h = sha256 b)"

lemma known_pinned: "known_digests fs pkg = Inr known \<Longrightarrow> h \<in> set known \<Longrightarrow> pinned fs pkg h"
  unfolding known_digests_def pinned_def
  by (auto simp: bind_res_eq_Inr List.map_filter_def split: option.splits) blast+

lemma clean_document:
  assumes "verify_hash_citations env fs pkg = Inr []" "p \<in> set (json_documents fs pkg)"
    "read_text fs (pkg @ p) = Some text" "json_loads text = Some doc"
  obtains known where "known_digests fs pkg = Inr known"
    "concat (map (citation_problems env fs (pkg @ butlast p) (shown env (pkg @ p)))
      (find_citations env fs (pkg @ butlast p) doc [])) = []"
    "abbreviation_problems (shown env (pkg @ p)) known doc = []"
proof -
  from assms(1) obtain rows where rows: "map_res (document_problems env fs pkg) (json_documents fs pkg) = Inr rows"
    "concat rows = []"
    by (auto simp: verify_hash_citations_def bind_res_eq_Inr simp del: concat_eq_Nil_conv)
  from map_res_concat_Nil[OF this assms(2)] have "document_problems env fs pkg p = Inr []" .
  then show ?thesis
    using assms(3,4) that by (auto simp: document_problems_def Let_def bind_res_eq_Inr simp del: concat_eq_Nil_conv)
qed

lemma clean_citations_supported:
  assumes "verify_hash_citations env fs pkg = Inr []" "p \<in> set (json_documents fs pkg)"
    "read_text fs (pkg @ p) = Some text" "json_loads text = Some doc"
    "ct \<in> set (find_citations env fs (pkg @ butlast p) doc [])"
  shows "supported env fs (pkg @ butlast p) ct"
proof -
  have "concat (map (citation_problems env fs (pkg @ butlast p) (shown env (pkg @ p)))
      (find_citations env fs (pkg @ butlast p) doc [])) = []"
    by (rule clean_document[OF assms(1-4)])
  then have "citation_problems env fs (pkg @ butlast p) (shown env (pkg @ p)) ct = []"
    using assms(5) unfolding concat_map_Nil_iff by blast
  then show ?thesis by (rule citation_problems_Nil)
qed

text \<open>The object \<^verbatim>\<open>{"path": .., "sha256": ..}\<close>, as the source manifests carry it.\<close>

definition path_sha :: "string \<times> string \<Rightarrow> json" where
  "path_sha = (\<lambda>(p, h). JObj [(''path'', JStr p), (''sha256'', JStr h)])"

text \<open>What the check promises of a member of an object: the value of a citation role is a map whose
  entries are about files beside the document; an object that pairs a path with a digest, and a digest
  under the name of a file that is or once was in the repository, are about that file.\<close>

definition entry_supported :: "venv \<Rightarrow> node \<Rightarrow> path \<Rightarrow> obj \<Rightarrow> string \<Rightarrow> string \<Rightarrow> json \<Rightarrow> bool" where
  "entry_supported env fs dir kvs q key v \<longleftrightarrow>
     (if key \<in> set CITATION_ROLES then
        \<exists>entries. v = JObj entries \<and> (\<forall>e\<in>set entries. supported env fs dir (role_entry kvs key (subkey q key) e))
      else if path_sha_object v then supported env fs dir (object_citation kvs key (subkey q key) v)
      else if bare_digest v then
        (case resolve_citation_target env fs dir key BAny of
           Resolved p w \<Rightarrow> supported env fs dir (object_citation kvs key (subkey q key) (path_sha (key, py_str v))\<lparr>ct_base := w\<rparr>)
         | _ \<Rightarrow> \<not> ever_existed env dir key BAny)
      else True)"

lemma clean_roles_supported:
  assumes "\<And>ct. ct \<in> set (role_citations kvs key place v) \<Longrightarrow> supported env fs dir ct"
  shows "\<exists>entries. v = JObj entries \<and> (\<forall>e\<in>set entries. supported env fs dir (role_entry kvs key place e))"
proof (cases v)
  case (JObj entries)
  with assms show ?thesis by (simp add: role_citations_def)
qed (use assms in \<open>auto simp: role_citations_def supported_def\<close>)

lemma deleted_unsupported:
  "ct_deleted ct \<Longrightarrow> ct_name ct = JStr key \<Longrightarrow> ct_base ct = BAny \<Longrightarrow>
     (\<And>p w. resolve_citation_target env fs dir key BAny \<noteq> Resolved p w) \<Longrightarrow> \<not> supported env fs dir ct"
  by (simp add: supported_def)

lemma clean_entries_supported:
  assumes "verify_hash_citations env fs pkg = Inr []" "p \<in> set (json_documents fs pkg)"
    "read_text fs (pkg @ p) = Some text" "json_loads text = Some doc"
    and "visited doc [] kvs q" "(key, v) \<in> set kvs" "\<not> endswith key ''_supersession''"
  shows "entry_supported env fs (pkg @ butlast p) kvs q key v"
proof -
  let ?dir = "pkg @ butlast p"
  note found = clean_citations_supported[OF assms(1-4)]
  consider (role) "key \<in> set CITATION_ROLES" | (pair) "key \<notin> set CITATION_ROLES" "path_sha_object v"
    | (bare) "key \<notin> set CITATION_ROLES" "\<not> path_sha_object v" "bare_digest v"
    | (other) "key \<notin> set CITATION_ROLES" "\<not> path_sha_object v" "\<not> bare_digest v" by blast
  then show ?thesis
  proof cases
    case role
    have "supported env fs ?dir ct" if "ct \<in> set (role_citations kvs key (subkey q key) v)" for ct
      using found visited_role[OF assms(5-7) role] that by blast
    from clean_roles_supported[OF this] role show ?thesis by (simp add: entry_supported_def)
  next
    case pair
    from found[OF visited_object[OF assms(5-7) pair]] pair show ?thesis by (simp add: entry_supported_def)
  next
    case bare
    have all: "supported env fs ?dir ct" if "ct \<in> set (bare_citation env fs ?dir kvs key (subkey q key) (py_str v))" for ct
      using found visited_bare[OF assms(5-7) bare] that by blast
    show ?thesis
    proof (cases "resolve_citation_target env fs ?dir key BAny")
      case (Resolved p w)
      then show ?thesis using all bare
        by (simp add: entry_supported_def bare_citation_def Let_def object_citation_def path_sha_def)
    next
      case Unresolved
      then show ?thesis using all bare deleted_unsupported[where key = key and env = env and fs = fs and dir = ?dir]
        by (auto simp: entry_supported_def bare_citation_def Let_def split: if_splits)
    next
      case Ambiguous
      then show ?thesis using all bare deleted_unsupported[where key = key and env = env and fs = fs and dir = ?dir]
        by (auto simp: entry_supported_def bare_citation_def Let_def split: if_splits)
    qed
  qed (simp add: entry_supported_def)
qed

lemma clean_abbreviations_pinned:
  assumes "verify_hash_citations env fs pkg = Inr []" "p \<in> set (json_documents fs pkg)"
    "read_text fs (pkg @ p) = Some text" "json_loads text = Some doc"
    and "text_at doc [] q s" "\<not> hex64 s" "token \<in> set (abbreviated_tokens s)"
  shows "\<exists>h. pinned fs pkg h \<and> startswith h token"
proof -
  obtain known where known: "known_digests fs pkg = Inr known"
    and none: "abbreviation_problems (shown env (pkg @ p)) known doc = []"
    by (rule clean_document[OF assms(1-4)])
  from none abbreviated_at[OF assms(5-7)] have "list_ex (\<lambda>h. startswith h token) known"
    unfolding abbreviation_problems_def concat_map_Nil_iff by (fastforce simp: only_def split: if_splits)
  with known_pinned[OF known] show ?thesis by (auto simp: list_ex_iff)
qed

section \<open>Citations the search does not see\<close>

lemma find_path_sha:
  assumes "\<not> hex64 p" "resolve_citation_target env fs pkg ''sha256'' BAny = Unresolved"
    and "\<not> ever_existed env pkg ''sha256'' BAny"
  shows "find_citations env fs pkg (path_sha (p, h)) trail = []"
proof -
  have k: "\<not> endswith ''path'' ''_supersession''" "\<not> endswith ''sha256'' ''_supersession''"
    "''path'' \<notin> set CITATION_ROLES" "''sha256'' \<notin> set CITATION_ROLES"
    "\<not> path_sha_object (JStr x)" for x
    by (simp_all add: path_sha_object_def) code_simp+
  show ?thesis
    using assms unfolding path_sha_def
    by (simp add: k find_citations.simps bare_digest_def bare_citation_def Let_def)
qed

section \<open>Properties\<close>

text \<open>C9: a supersession's chain has no defect exactly when git is there, the chain is not empty, each hop
  is a commit that took the file from the previous digest to the next, the first starts at the cited
  digest, the last ends at the current one, and the record names the first commit.\<close>

theorem clean_hops_are_lineage:
  "verify_hops env record cited current rel = [] \<longleftrightarrow>
     v_git_dir env \<and> (\<exists>hops last_sha. get record ''hops'' = JArr hops \<and> hops \<noteq> [] \<and>
       lineage env rel cited hops last_sha \<and> lower last_sha = lower current \<and> first_transition_problems record hops = [])"
  by (rule verify_hops_Nil)

text \<open>C8: when the citation check reports nothing, every digest a receipt quotes, where the search comes
  to it, is supported (\<open>entry_supported\<close>: the entries of a citation role, the objects that pair a path
  with a digest, the bare digests under a file's name, now or once), and every abbreviated digest its
  texts quote under a label is the start of a digest that the manifest or a file of the package has.\<close>

theorem clean_documents_supported:
  assumes "verify_hash_citations env fs pkg = Inr []" "p \<in> set (json_documents fs pkg)"
    and "read_text fs (pkg @ p) = Some text" "json_loads text = Some doc"
  shows "(\<forall>kvs q key v. visited doc [] kvs q \<and> (key, v) \<in> set kvs \<and> \<not> endswith key ''_supersession'' \<longrightarrow>
      entry_supported env fs (pkg @ butlast p) kvs q key v) \<and>
    (\<forall>q s token. text_at doc [] q s \<and> \<not> hex64 s \<and> token \<in> set (abbreviated_tokens s) \<longrightarrow>
      (\<exists>h. pinned fs pkg h \<and> startswith h token))"
  using clean_entries_supported[OF assms] clean_abbreviations_pinned[OF assms] by blast


text \<open>A bare digest whose key names two different files is never reported as ambiguous: it is
  reported as deleted when history has the path, and not at all otherwise.\<close>

theorem ambiguous_bare_key_misreported:
  assumes "resolve_citation_target env fs pkg key BAny = Ambiguous" "unsafe_citation_name (JStr key) = []" "hex64 sha"
  shows "concat (map (citation_problems env fs pkg rel) (bare_citation env fs pkg owner key place sha)) =
    (if ever_existed env pkg key BAny
     then [rel @ '': BROKEN EVIDENCE LINK -- citation at '' @ place @ '' names '' @ key @ '' with '' @ take 12 (lower sha) @
         '', but that file no longer exists in the tree: the receipt attests to something that has been deleted'']
     else [])"
  using assms by (simp add: bare_citation_def citation_problems_def bare_digest_def named_problems_def)

section \<open>Witnesses\<close>

text \<open>Abbreviations as the comments of the script discuss them: a label binds the tokens after it up to the
  next label or the end of the clause, and a commit's label exempts them. A token in upper case is
  read as it stands.\<close>

lemma abbreviations_of_the_comments:
  "abbreviated_tokens ''candidate f3296156 and mapped netlist b85271d2'' = [''f3296156'', ''b85271d2'']"
  "abbreviated_tokens ''candidate built from commit deadbeef01'' = []"
  "abbreviated_tokens ''digest: DEADBEEF02'' = []"
  "abbreviated_tokens ''digest DEADBEEF02'' = [''DEADBEEF02'']"
  by code_simp+

text \<open>A package with the file \<^verbatim>\<open>a\<close> and a document that cites it both ways.\<close>

definition demo_citing :: "bytes \<Rightarrow> obj" where
  "demo_citing b = [(''src'', path_sha (''a'', sha256 b)), (''files'', JObj [(''a'', JStr (sha256 b))])]"

definition demo_cited :: "bytes \<Rightarrow> node" where
  "demo_cited b = Dir [(''p'', Dir [(''a'', File b), (''m.json'', File (json_dumps compact_style (JObj (demo_citing b))))])]"

lemma sha256_hex64 [simp]: "hex64 (sha256 b)"
proof -
  have "is_hex c" if "c \<in> set (sha256 b)" for c
    using sha256_hex_char[OF that] by (auto simp: is_hex_def)
  then show ?thesis using sha256_shape[of b] by (simp add: hex64_def list_all_iff is_sha256_hex_def)
qed

lemma demo_cited_plain: "plain_json (JObj (demo_citing b))"
  using sha256_plain(2)[of b] by (simp add: demo_citing_def path_sha_def ascii_def)

lemma demo_cited_text:
  "read_text (demo_cited b) [''p'', ''m.json''] = Some (json_dumps compact_style (JObj (demo_citing b)))"
  "json_loads (json_dumps compact_style (JObj (demo_citing b))) = Some (JObj (demo_citing b))"
proof -
  have "read_bytes (demo_cited b) [''p'', ''m.json''] = Some (json_dumps compact_style (JObj (demo_citing b)))"
    by (simp add: read_bytes_def demo_cited_def)
  from read_text_printable[OF this printable_dumps(1)[OF demo_cited_plain]]
  show "read_text (demo_cited b) [''p'', ''m.json''] = Some (json_dumps compact_style (JObj (demo_citing b)))" .
  from loads_dumps[OF styles_ok(1) demo_cited_plain, of "[]"]
  show "json_loads (json_dumps compact_style (JObj (demo_citing b))) = Some (JObj (demo_citing b))" by simp
qed

lemma demo_cited_files:
  "package_files (demo_cited b) [''p''] = [[''a''], [''m.json'']]"
  "json_documents (demo_cited b) [''p''] = [[''m.json'']]"
proof -
  have "package_files (demo_cited b) [''p''] = sort [[''a''], [''m.json'']]"
    by (simp add: package_files_def list_dir_def demo_cited_def)
  also have "\<dots> = [[''a''], [''m.json'']]" by code_simp
  finally show f: "package_files (demo_cited b) [''p''] = [[''a''], [''m.json'']]" .
  have "\<not> is_json_name ''a''" "is_json_name ''m.json''" by code_simp+
  then show "json_documents (demo_cited b) [''p''] = [[''m.json'']]"
    by (simp add: json_documents_def f path_name_def)
qed

lemma demo_cited_citations:
  "find_citations demo_env (demo_cited b) [''p''] (JObj (demo_citing b)) [] =
     [object_citation (demo_citing b) ''src'' ''src'' (path_sha (''a'', sha256 b)),
      role_entry (demo_citing b) ''files'' ''files'' (''a'', JStr (sha256 b))]"
proof -
  have k: "\<not> endswith ''src'' ''_supersession''" "\<not> endswith ''files'' ''_supersession''"
    "''src'' \<notin> set CITATION_ROLES" "''files'' \<in> set CITATION_ROLES" "subkey [] ''src'' = ''src''" "subkey [] ''files'' = ''files''"
    by code_simp+
  have "path_sha_object (path_sha (''a'', sha256 b))" by (simp add: path_sha_object_def path_sha_def has_key_def)
  then show ?thesis
    by (subst find_citations.simps(1)) (simp add: demo_citing_def k role_citations_def Let_def)
qed

lemma demo_cited_target: "resolve_citation_target demo_env (demo_cited b) [''p''] ''a'' c =
   (if c = BRepo then Unresolved else Resolved [''p'', ''a''] BPackage)"
proof -
  have "resolve (join_path [''p''] ''a'') = [''p'', ''a'']" "resolve (join_path [] ''a'') = [''a'']" by code_simp+
  moreover have "is_file (demo_cited b) [''p'', ''a'']" "\<not> is_file (demo_cited b) [''a'']"
    by (simp_all add: is_file_def demo_cited_def)
  ultimately show ?thesis
    by (cases c) (simp_all add: resolve_citation_target_def resolution_hits_def RESOLUTION_BASES_def root_of_def demo_env_def)
qed

lemma demo_cited_file: "read_bytes (demo_cited b) [''p'', ''a''] = Some b"
  by (simp add: read_bytes_def demo_cited_def)

lemma demo_cited_clean_one:
  assumes "ct_name ct = JStr ''a''" "ct_sha ct = JStr (sha256 b)" "\<not> ct_malformed ct" "\<not> ct_deleted ct"
    and "ct_base ct \<noteq> BRepo" "paired_supersession ct = JNull"
  shows "citation_problems demo_env (demo_cited b) [''p''] rel ct = []"
proof -
  have "unsafe_citation_name (JStr ''a'') = []" by code_simp
  moreover have "relative_to [''p'', ''a''] (v_repo demo_env) = Some [''p'', ''a'']"
    by (simp add: relative_to_def demo_env_def)
  ultimately show ?thesis
    using assms by (simp add: citation_problems_def bare_digest_def named_problems_def demo_cited_target file_problems_def
        demo_cited_file settled_problems_def)
qed

lemma demo_cited_clean: "verify_hash_citations demo_env (demo_cited b) [''p''] = Inr []"
proof -
  have "abbreviated_tokens ''a'' = []" by code_simp
  then have a: "find_abbreviated (JObj (demo_citing b)) [] = []"
    by (simp add: demo_citing_def path_sha_def)
  have "\<not> is_file (demo_cited b) [''p'', SUMS]" by (simp add: is_file_def demo_cited_def SUMS_def)
  then have k: "\<exists>known. known_digests (demo_cited b) [''p''] = Inr known"
    by (simp add: known_digests_def sums_entries_def sums_rows_def)
  have "citation_problems demo_env (demo_cited b) [''p''] rel (object_citation (demo_citing b) ''src'' ''src'' (path_sha (''a'', sha256 b))) = []"
    "citation_problems demo_env (demo_cited b) [''p''] rel (role_entry (demo_citing b) ''files'' ''files'' (''a'', JStr (sha256 b))) = []" for rel
    by (rule demo_cited_clean_one;
        simp add: object_citation_def role_entry_def path_sha_def paired_supersession_def demo_citing_def Let_def)+
  then have "citation_problems demo_env (demo_cited b) [''p''] rel ct = []"
    if "ct \<in> set (find_citations demo_env (demo_cited b) [''p''] (JObj (demo_citing b)) [])" for rel ct
    using that by (auto simp: demo_cited_citations)
  then have "concat (map (citation_problems demo_env (demo_cited b) [''p''] rel)
      (find_citations demo_env (demo_cited b) [''p''] (JObj (demo_citing b)) [])) = []" for rel
    unfolding concat_map_Nil_iff by blast
  with a k have "document_problems demo_env (demo_cited b) [''p''] [''m.json''] = Inr []"
    by (auto simp: document_problems_def demo_cited_text abbreviation_problems_def Let_def simp del: concat_eq_Nil_conv)
  then show ?thesis by (simp add: verify_hash_citations_def demo_cited_files(2))
qed

theorem clean_documents_supported_witness:
  "supported demo_env (demo_cited []) [''p''] (object_citation (demo_citing []) ''src'' ''src'' (path_sha (''a'', sha256 [])))
   \<and> supported demo_env (demo_cited []) [''p''] (role_entry (demo_citing []) ''files'' ''files'' (''a'', JStr (sha256 [])))"
proof -
  have k: "\<not> endswith ''src'' ''_supersession''" "''src'' \<notin> set CITATION_ROLES" "subkey [] ''src'' = ''src''"
    "\<not> endswith ''files'' ''_supersession''" "''files'' \<in> set CITATION_ROLES" "subkey [] ''files'' = ''files''"
    by code_simp+
  have v: "visited (JObj (demo_citing [])) [] (demo_citing []) []" by (rule visit_here)
  have m: "(''src'', path_sha (''a'', sha256 [])) \<in> set (demo_citing [])"
    "(''files'', JObj [(''a'', JStr (sha256 []))]) \<in> set (demo_citing [])" by (simp_all add: demo_citing_def)
  have o: "path_sha_object (path_sha (''a'', sha256 []))" by (simp add: path_sha_object_def path_sha_def has_key_def)
  have d: "[''m.json''] \<in> set (json_documents (demo_cited []) [''p''])" by (simp add: demo_cited_files)
  have r: "read_text (demo_cited []) ([''p''] @ [''m.json'']) = Some (json_dumps compact_style (JObj (demo_citing [])))"
    using demo_cited_text(1) by simp
  have "entry_supported demo_env (demo_cited []) [''p''] (demo_citing []) [] ''src'' (path_sha (''a'', sha256 []))"
    "entry_supported demo_env (demo_cited []) [''p''] (demo_citing []) [] ''files'' (JObj [(''a'', JStr (sha256 []))])"
    using clean_documents_supported[OF demo_cited_clean d r demo_cited_text(2)] v m k(1,4) by simp_all
  with k o show ?thesis by (simp add: entry_supported_def)
qed


theorem ambiguous_bare_key_misreported_witness:
  "concat (map (citation_problems demo_env (Dir [(''a'', File []), (''p'', Dir [(''a'', File [])])]) [''p''] ''r.json'')
     (bare_citation demo_env (Dir [(''a'', File []), (''p'', Dir [(''a'', File [])])]) [''p''] [] ''a'' ''a'' (replicate 64 CHR ''0''))) = []"
proof -
  let ?fs = "Dir [(''a'', File []), (''p'', Dir [(''a'', File [])])]"
  have "resolve_citation_target demo_env ?fs [''p''] ''a'' BAny = Ambiguous" "unsafe_citation_name (JStr ''a'') = []"
    "hex64 (replicate 64 CHR ''0'')" "\<not> ever_existed demo_env [''p''] ''a'' BAny"
    by code_simp+
  then show ?thesis by (simp only: ambiguous_bare_key_misreported if_False)
qed

end
