(* ===== verification/ReceiptVerifier.thy ===== *)
theory ReceiptVerifier
  imports Citations Baseline
begin

text \<open>
  \<^verbatim>\<open>src/athanor/verify_public_receipts.py\<close>, last part: \<open>verify\<close> runs the nine checks on every
  package below the artifact root, \<open>main\<close> compares the findings with the baseline of known stale
  citations and turns the comparison into an exit code.

  The artifact root is below the repository, or has no package. An exception nothing catches ends
  the process with code 1, the code of a failed verdict.
\<close>

section \<open>All packages\<close>

definition is_package :: "node \<Rightarrow> path \<Rightarrow> bool" where
  "is_package fs p \<longleftrightarrow> is_dir fs p \<and> (is_file fs (p @ [SUMS]) \<or> is_file fs (p @ [RECEIPT]))"

definition receipt_packages :: "node \<Rightarrow> path \<Rightarrow> path list" where
  "receipt_packages fs arts =
     (if is_dir fs arts then filter (is_package fs) (map (\<lambda>n. arts @ [n]) (sort (map fst (list_dir fs arts)))) else [])"

definition package_checks :: "venv \<Rightarrow> node \<Rightarrow> (path \<Rightarrow> string list res) list" where
  "package_checks env fs =
     [verify_sums env fs, sums_path_escapes env fs, verify_manifest_complete env fs, verify_receipt_json env fs,
      verify_replay env fs, verify_receipt_bound_to_logs env fs, verify_customer_ready_receipt env fs,
      verify_public_export_clean env fs, verify_hash_citations env fs]"

definition verify_package :: "venv \<Rightarrow> node \<Rightarrow> path \<Rightarrow> string list res" where
  "verify_package env fs pkg =
     bind_res (map_res (\<lambda>check. check pkg) (package_checks env fs)) (\<lambda>pss. Inr (concat pss))"

definition verify :: "venv \<Rightarrow> node \<Rightarrow> path \<Rightarrow> string list res" where
  "verify env fs arts =
     bind_res (map_res (verify_package env fs) (receipt_packages fs arts)) (\<lambda>pss. Inr (concat pss))"

section \<open>The baseline\<close>

definition STALE_BASELINE :: "venv \<Rightarrow> path" where
  "STALE_BASELINE env = v_repo env @ [''athanor'', ''ath3444_known_stale_citations.json'']"

text \<open>\<open>for e in v\<close>: the elements of a list, the keys of a dict, the characters of a text.\<close>

definition iterated :: "json \<Rightarrow> json list res" where
  "iterated v =
     (case v of JArr xs \<Rightarrow> Inr xs | JObj kvs \<Rightarrow> Inr (map (JStr \<circ> fst) kvs) | JStr s \<Rightarrow> Inr (map (\<lambda>c. JStr [c]) s)
      | _ \<Rightarrow> Inl TypeError)"

definition baseline_key :: "json \<Rightarrow> string res" where
  "baseline_key e =
     bind_res (subscript e ''receipt'') (\<lambda>receipt.
     bind_res (subscript e ''key'') (\<lambda>key.
     bind_res (subscript e ''cited_sha256'') (\<lambda>cited.
     bind_res (subscript e ''actual_sha256'') (\<lambda>actual.
       Inr (stale_line (py_str receipt) (py_str key) (py_str cited) (py_str actual))))))"

text \<open>A missing file and text that is not JSON are tool errors; what else goes wrong is not caught.\<close>

definition baseline_keys :: "venv \<Rightarrow> node \<Rightarrow> path \<Rightarrow> string list res" where
  "baseline_keys env fs p =
     (if \<not> is_file fs p then Inl (ToolError (''baseline file missing: /'' @ as_posix p))
      else (case read_text fs p of
          None \<Rightarrow> Inl (ValueError (v_read_error env p))
        | Some text \<Rightarrow>
            (case json_loads text of
               None \<Rightarrow> Inl (ToolError (''baseline unreadable: '' @ v_json_error env text))
             | Some data \<Rightarrow>
                 bind_res (get_attr data ''entries'' (JArr [])) (\<lambda>entries.
                 bind_res (iterated entries) (map_res baseline_key)))))"

section \<open>The verdict\<close>

record receipt_args =
  ra_root :: path
  ra_baseline :: "path option"
  ra_no_baseline :: bool

text \<open>The arguments of a run without any.\<close>

definition ARTIFACT_ROOT :: "venv \<Rightarrow> path" where
  "ARTIFACT_ROOT env = v_repo env @ [''athanor_artifacts'']"

definition default_args :: "venv \<Rightarrow> receipt_args" where
  "default_args env = \<lparr>ra_root = ARTIFACT_ROOT env, ra_baseline = None, ra_no_baseline = False\<rparr>"

definition known_stale :: "venv \<Rightarrow> node \<Rightarrow> receipt_args \<Rightarrow> string list res" where
  "known_stale env fs args =
     (if ra_no_baseline args then Inr []
      else (case ra_baseline args of
          Some p \<Rightarrow> baseline_keys env fs p
        | None \<Rightarrow> if \<not> is_file fs (STALE_BASELINE env) then Inr [] else baseline_keys env fs (STALE_BASELINE env)))"

definition unexpected :: "string list \<Rightarrow> string list \<Rightarrow> string list" where
  "unexpected problems known = filter (\<lambda>p. p \<notin> set known) problems"

definition still_stale :: "string list \<Rightarrow> string list \<Rightarrow> string list" where
  "still_stale problems known = sorted_set (filter (\<lambda>p. p \<in> set known) problems)"

definition orphaned :: "string list \<Rightarrow> string list \<Rightarrow> string list" where
  "orphaned problems known = sorted_set (filter (\<lambda>k. k \<notin> set (still_stale problems known)) known)"

definition receipt_verdict :: "string list \<Rightarrow> string list \<Rightarrow> nat" where
  "receipt_verdict problems known =
     (if unexpected problems known \<noteq> [] \<or> orphaned problems known \<noteq> [] then 1 else 0)"

definition when_any :: "'a list \<Rightarrow> line_out list \<Rightarrow> line_out list" where
  "when_any xs ls = (if xs = [] then [] else ls)"

text \<open>The report of the comparison, and the last line of a run that passes.\<close>

definition report_lines :: "string list \<Rightarrow> string list \<Rightarrow> line_out list" where
  "report_lines problems known =
     (let stale = still_stale problems known; orphans = orphaned problems known; new = unexpected problems known in
      when_any stale
        (Out (''KNOWN-STALE (ATH-3444): '' @ dec (length stale) @ '' of '' @ dec (length (sorted_set known)) @
           '' baselined citation(s) still present. These are DEFECTS AWAITING CORRECTION, not accepted state:'') #
         map (\<lambda>p. Out (''  known-stale: '' @ p)) stale) @
      when_any orphans
        (Err ([NL] @ ''FAIL: '' @ dec (length orphans) @ '' baseline entr(ies) no longer match any finding. The citation was '' @
           ''corrected but the baseline still lists it -- remove the entry, or the receipt becomes a list of things '' @
           ''that used to be wrong:'') # map (\<lambda>p. Err (''  orphaned-baseline: '' @ p)) orphans) @
      when_any new
        (Err ([NL] @ ''FAIL: '' @ dec (length new) @ '' citation problem(s) NOT in the ATH-3444 baseline:'') #
         map (\<lambda>p. Err (''  '' @ p)) new))"

definition passing_line :: "string \<Rightarrow> string list \<Rightarrow> line_out" where
  "passing_line rel stale =
     Out (if stale \<noteq> []
       then [NL] @ ''OK (0 unbaselined): receipts under '' @ rel @ '' carry no citation problem outside the '' @
         dec (length stale) @ '' known-stale entries. NOT clean -- those 13 are live on a public repo.''
       else ''OK: verified public receipts under '' @ rel)"

definition receipt_main :: "venv \<Rightarrow> node \<Rightarrow> receipt_args \<Rightarrow> nat \<times> line_out list" where
  "receipt_main env fs args =
     (case verify env fs (ra_root args) of
        Inl e \<Rightarrow> (1, [])
      | Inr problems \<Rightarrow>
          (case known_stale env fs args of
             Inl (ToolError err) \<Rightarrow>
               (2, [Err (''TOOL-ERROR: '' @ err), Err ''TOOL-ERROR: could not establish the baseline; NO VERDICT.''])
           | Inl e \<Rightarrow> (1, [])
           | Inr known \<Rightarrow>
               let report = report_lines problems known in
               if receipt_verdict problems known \<noteq> 0 then (1, report)
               else (case relative_to (ra_root args) (v_repo env) of
                   None \<Rightarrow> (1, report)
                 | Some rel \<Rightarrow> (0, report @ [passing_line (as_posix rel) (still_stale problems known)]))))"

interpretation receipt_gate: ratchet receipt_verdict
  by unfold_locales
    (auto simp: receipt_verdict_def unexpected_def orphaned_def still_stale_def filter_empty_conv)

section \<open>What a passing run says\<close>

lemma exit_zero_iff:
  "fst (receipt_main env fs args) = 0 \<longleftrightarrow>
     (\<exists>problems known. verify env fs (ra_root args) = Inr problems \<and> known_stale env fs args = Inr known \<and>
        set problems = set known \<and> prefix (v_repo env) (ra_root args))"
  by (auto simp: receipt_main_def Let_def receipt_gate.zero_iff relative_to_def
      split: sum.splits py_error.splits option.splits)

lemma verify_Nil:
  assumes "verify env fs arts = Inr []" "pkg \<in> set (receipt_packages fs arts)" "check \<in> set (package_checks env fs)"
  shows "check pkg = Inr []"
proof -
  from assms(1) obtain pss where "map_res (verify_package env fs) (receipt_packages fs arts) = Inr pss" "concat pss = []"
    by (auto simp: verify_def bind_res_eq_Inr simp del: concat_eq_Nil_conv)
  then have "verify_package env fs pkg = Inr []" using assms(2) by (rule map_res_concat_Nil)
  then obtain rows where "map_res (\<lambda>check. check pkg) (package_checks env fs) = Inr rows" "concat rows = []"
    by (auto simp: verify_package_def bind_res_eq_Inr simp del: concat_eq_Nil_conv)
  then show ?thesis using assms(3) by (rule map_res_concat_Nil)
qed

lemma stale_line_contains: "contains (stale_line rel place sha got) '': STALE citation at ''"
  unfolding stale_line_def by (rule contains_append)

lemma baseline_key_stale: "baseline_key e = Inr k \<Longrightarrow> contains k '': STALE citation at ''"
  unfolding baseline_key_def by (auto simp: bind_res_eq_Inr intro: stale_line_contains)

lemma baseline_key_missing:
  assumes "f \<in> {''receipt'', ''key'', ''cited_sha256'', ''actual_sha256''}" "\<not> has_key e f"
  shows "\<exists>k. baseline_key (JObj e) = Inl (KeyError k)"
  using assms by (auto simp: baseline_key_def subscript_def has_key_def bind_res_def split: option.splits)

lemma known_are_stale:
  assumes "known_stale env fs args = Inr known" "k \<in> set known"
  shows "contains k '': STALE citation at ''"
proof -
  have keys: "contains k '': STALE citation at ''" if b: "baseline_keys env fs p = Inr known" for p
  proof -
    from b obtain xs where "map_res baseline_key xs = Inr known"
      by (auto simp: baseline_keys_def bind_res_eq_Inr split: if_splits option.splits)
    then have "list_all2 (\<lambda>x y. baseline_key x = Inr y) xs known" by (simp add: map_res_Inr)
    with assms(2) obtain x where "baseline_key x = Inr k" by (auto simp: list_all2_conv_all_nth in_set_conv_nth)
    then show ?thesis by (rule baseline_key_stale)
  qed
  from assms show ?thesis
    by (auto simp: known_stale_def split: if_splits option.splits dest: keys)
qed

lemma passing_run:
  assumes "fst (receipt_main env fs args) = 0" "known_stale env fs args = Inr []"
    and "pkg \<in> set (receipt_packages fs (ra_root args))" "wf_node fs" "''..'' \<notin> set pkg"
    and "p \<in> set (package_files fs pkg)" "\<not> not_shipped (as_posix p)"
  shows "(\<exists>rows b. sums_rows fs pkg = Inr rows \<and> read_bytes fs (pkg @ p) = Some b \<and> (sha256 b, as_posix p) \<in> set rows) \<and>
    (\<forall>text doc ct. p \<in> set (json_documents fs pkg) \<longrightarrow> read_text fs (pkg @ p) = Some text \<longrightarrow> json_loads text = Some doc \<longrightarrow>
       ct \<in> set (find_citations env fs (pkg @ butlast p) doc []) \<longrightarrow> supported env fs (pkg @ butlast p) ct)"
proof -
  from assms(1,2) have clean: "verify env fs (ra_root args) = Inr []" by (auto simp: exit_zero_iff)
  have "verify_sums env fs pkg = Inr []" "verify_manifest_complete env fs pkg = Inr []" "verify_hash_citations env fs pkg = Inr []"
    by (rule verify_Nil[OF clean assms(3)]; simp add: package_checks_def)+
  then show ?thesis using bound_by_manifest[OF _ _ assms(4-7)] clean_citations_supported by meson
qed

section \<open>Properties\<close>

text \<open>C4: the run passes exactly when no check raised, the baseline could be read, its entries are
  exactly the findings, and the artifact root is inside the repository.\<close>

theorem receipt_gate_exact:
  "fst (receipt_main env fs args) = 0 \<longleftrightarrow>
     (\<exists>problems known. verify env fs (ra_root args) = Inr problems \<and> known_stale env fs args = Inr known \<and>
        set problems = set known \<and> prefix (v_repo env) (ra_root args))"
  by (rule exit_zero_iff)


text \<open>C14: a baseline can only cover a stale citation: any other finding fails the run, whatever the
  baseline lists.\<close>

theorem baseline_covers_only_stale:
  assumes "verify env fs (ra_root args) = Inr problems" "problem \<in> set problems"
    and "\<not> contains problem '': STALE citation at ''"
  shows "fst (receipt_main env fs args) \<noteq> 0"
  using assms known_are_stale[of env fs args _ problem] by (auto simp: exit_zero_iff)


text \<open>A root outside the repository that has no package at all fails, after a comparison that
  found nothing.\<close>

theorem outside_root_fails:
  assumes "receipt_packages fs (ra_root args) = []" "ra_no_baseline args" "\<not> prefix (v_repo env) (ra_root args)"
  shows "receipt_main env fs args = (1, [])"
  using assms
  by (simp add: receipt_main_def verify_def known_stale_def receipt_verdict_def unexpected_def orphaned_def still_stale_def
      report_lines_def when_any_def relative_to_def Let_def)

section \<open>Witnesses\<close>

lemma map_res_clean: "\<forall>x\<in>set xs. f x = Inr [] \<Longrightarrow> \<exists>pss. map_res f xs = Inr pss \<and> concat pss = []"
  by (induction xs) auto

lemma contains_set: "contains s p \<Longrightarrow> set p \<subseteq> set s"
  by (auto simp: contains_iff)

lemma demo_bound_leaks: "filter (contains (unlines [sha256 b @ ''  a''])) FORBIDDEN_EXPORT_STRINGS = []"
proof -
  have chars: "is_hex c \<or> c = CHR '' '' \<or> c = NL" if "c \<in> set (unlines [sha256 b @ ''  a''])" for c
    using that sha256_hex_char[of c b] by (auto simp: is_hex_def in_range_def less_eq_char_def)
  have "\<not> contains (unlines [sha256 b @ ''  a'']) f" if f: "f \<in> set FORBIDDEN_EXPORT_STRINGS" for f
  proof
    assume "contains (unlines [sha256 b @ ''  a'']) f"
    with chars have "\<forall>c\<in>set f. is_hex c \<or> c = CHR '' '' \<or> c = NL" by (meson contains_set subsetD)
    moreover have "list_ex (\<lambda>c. \<not> (is_hex c \<or> c = CHR '' '' \<or> c = NL)) f"
    proof -
      have "list_all (list_ex (\<lambda>c. \<not> (is_hex c \<or> c = CHR '' '' \<or> c = NL))) FORBIDDEN_EXPORT_STRINGS" by code_simp
      with f show ?thesis by (simp add: list_all_iff)
    qed
    ultimately show False by (auto simp: list_ex_iff)
  qed
  then show ?thesis by (simp add: filter_empty_conv)
qed

lemma demo_bound_rows: "sums_rows (demo_bound b) [''athanor_artifacts'', ''p''] = Inr [(sha256 b, ''a'')]"
proof -
  have f: "is_file (demo_bound b) [''athanor_artifacts'', ''p'', SUMS]" by (simp add: is_file_def demo_bound_def SUMS_def)
  show ?thesis
    by (simp add: sums_rows_def f read_text_res_def demo_bound_text demo_bound_lines List.map_filter_simps
        demo_bound_fields del: unlines_simps)
qed

lemma demo_bound_escapes: "sums_path_escapes demo_env (demo_bound b) [''athanor_artifacts'', ''p''] = Inr []"
proof -
  have f: "is_file (demo_bound b) [''athanor_artifacts'', ''p'', SUMS]" by (simp add: is_file_def demo_bound_def SUMS_def)
  have "\<not> is_absolute ''a''" "relative_to (resolve (join_path [''athanor_artifacts'', ''p''] ''a'')) (resolve [''athanor_artifacts'', ''p'']) = Some [''a'']" by code_simp+
  then show ?thesis
    by (simp add: sums_path_escapes_def f read_text_res_def demo_bound_text demo_bound_lines escape_line_def
        demo_bound_fields Let_def del: unlines_simps)
qed

lemma demo_bound_export: "verify_public_export_clean demo_env (demo_bound []) [''athanor_artifacts'', ''p''] = Inr []"
proof -
  have "filter (contains []) FORBIDDEN_EXPORT_STRINGS = []" by code_simp
  then have "leak_rows demo_env (demo_bound []) q = Inr []" if "q \<in> {[''athanor_artifacts'', ''p'', ''a''], [''athanor_artifacts'', ''p'', SUMS], [''athanor_artifacts'', ''p'', RECEIPT], [''athanor_artifacts'', ''p'', ''README.md'']}" for q
    using that demo_bound_leaks[of "[]"] demo_bound_text[of "[]"]
    by (auto simp: leak_rows_def read_text_def read_bytes_def demo_bound_def SUMS_def RECEIPT_def decode_strict_def
        utf8_valid.simps[of "[]"] simp del: unlines_simps)
  moreover have "\<exists>files. manifest_bound_files (demo_bound []) [''athanor_artifacts'', ''p''] = Inr files \<and>
      set files \<subseteq> {[''athanor_artifacts'', ''p'', ''a''], [''athanor_artifacts'', ''p'', SUMS], [''athanor_artifacts'', ''p'', RECEIPT], [''athanor_artifacts'', ''p'', ''README.md'']}"
    by (simp add: manifest_bound_files_def demo_bound_rows join_path_def is_absolute_def startswith_def path_parts_def
        SUMS_def RECEIPT_def)
  ultimately obtain files where f: "manifest_bound_files (demo_bound []) [''athanor_artifacts'', ''p''] = Inr files"
    "\<forall>x\<in>set (sorted_set files). leak_rows demo_env (demo_bound []) x = Inr []"
    unfolding sorted_set_set by blast
  from map_res_clean[OF f(2)] f(1) show ?thesis by (auto simp: verify_public_export_clean_def)
qed

lemma demo_bound_json: "json_documents (demo_bound []) [''athanor_artifacts'', ''p''] = []"
proof -
  have "package_files (demo_bound []) [''athanor_artifacts'', ''p''] = sort [[''a''], [SUMS]]"
    by (simp add: package_files_def list_dir_def demo_bound_def SUMS_def)
  moreover have "\<not> is_json_name ''a''" "\<not> is_json_name SUMS" by code_simp+
  ultimately have "filter (\<lambda>p. is_json_name (path_name p)) (package_files (demo_bound []) [''athanor_artifacts'', ''p'']) = []"
    by (auto simp: filter_empty_conv path_name_def)
  then show ?thesis by (simp add: json_documents_def)
qed

lemma demo_bound_packages: "receipt_packages (demo_bound []) [''athanor_artifacts''] = [[''athanor_artifacts'', ''p'']]"
  by (simp add: receipt_packages_def is_dir_def is_file_def is_package_def list_dir_def demo_bound_def SUMS_def)

lemma demo_bound_verified: "verify demo_env (demo_bound []) [''athanor_artifacts''] = Inr []"
proof -
  have r: "\<not> is_file (demo_bound []) [''athanor_artifacts'', ''p'', RECEIPT]" "\<not> exists_path (demo_bound []) [''athanor_artifacts'', ''p'', ''receipt.json'']"
    by (simp_all add: is_file_def exists_path_def demo_bound_def RECEIPT_def SUMS_def)
  have "check [''athanor_artifacts'', ''p''] = Inr []" if "check \<in> set (package_checks demo_env (demo_bound []))" for check
    using that r demo_bound_sums demo_bound_escapes demo_bound_complete demo_bound_export demo_bound_json
    by (auto simp: package_checks_def verify_receipt_json_def verify_replay_def verify_receipt_bound_to_logs_def
        verify_customer_ready_receipt_def verify_hash_citations_def RECEIPT_def)
  then have "verify_package demo_env (demo_bound []) [''athanor_artifacts'', ''p''] = Inr []"
    using map_res_clean[of "package_checks demo_env (demo_bound [])" "\<lambda>check. check [''athanor_artifacts'', ''p'']"]
    by (auto simp: verify_package_def)
  then show ?thesis by (simp add: verify_def demo_bound_packages)
qed

lemma demo_no_baseline: "\<not> is_file (demo_bound []) (STALE_BASELINE demo_env)"
  by (simp add: STALE_BASELINE_def is_file_def demo_bound_def demo_env_def SUMS_def)

lemma demo_known: "known_stale demo_env (demo_bound []) (default_args demo_env) = Inr []"
  by (simp add: known_stale_def default_args_def demo_no_baseline)

lemma demo_pass: "fst (receipt_main demo_env (demo_bound []) (default_args demo_env)) = 0"
  using demo_known demo_bound_verified by (simp add: exit_zero_iff default_args_def ARTIFACT_ROOT_def demo_env_def)

lemma demo_package: "[''athanor_artifacts'', ''p''] \<in> set (receipt_packages (demo_bound []) (ra_root (default_args demo_env)))"
  by (simp add: demo_bound_packages default_args_def ARTIFACT_ROOT_def demo_env_def)

lemma demo_tree:
  "wf_node (demo_bound [])" "''..'' \<notin> set [''athanor_artifacts'', ''p'']"
  "[''a''] \<in> set (package_files (demo_bound []) [''athanor_artifacts'', ''p''])" "\<not> not_shipped (as_posix [''a''])"
proof -
  show "wf_node (demo_bound [])" "''..'' \<notin> set [''athanor_artifacts'', ''p'']"
    "[''a''] \<in> set (package_files (demo_bound []) [''athanor_artifacts'', ''p''])"
    by (simp_all add: demo_bound_def SUMS_def package_files_def list_dir_def)
  show "\<not> not_shipped (as_posix [''a''])" by code_simp
qed


theorem baseline_covers_only_stale_witness:
  "fst (receipt_main demo_env (Dir [(''athanor_artifacts'', Dir [(''p'', Dir [(SUMS, File ''x'')])])]) (default_args demo_env)) \<noteq> 0"
proof (rule baseline_covers_only_stale)
  show "verify demo_env (Dir [(''athanor_artifacts'', Dir [(''p'', Dir [(SUMS, File ''x'')])])]) (ra_root (default_args demo_env)) =
      Inr [''athanor_artifacts/p/SHA256SUMS:1: malformed line'']" by code_simp
  show "''athanor_artifacts/p/SHA256SUMS:1: malformed line'' \<in> set [''athanor_artifacts/p/SHA256SUMS:1: malformed line'']" by simp
  show "\<not> contains ''athanor_artifacts/p/SHA256SUMS:1: malformed line'' '': STALE citation at ''" by code_simp
qed


theorem outside_root_fails_witness:
  "receipt_main (demo_env\<lparr>v_repo := [''r'']\<rparr>) (Dir [(''tmp'', Dir [])])
     \<lparr>ra_root = [''tmp''], ra_baseline = None, ra_no_baseline = True\<rparr> = (1, [])"
  by (rule outside_root_fails) code_simp+

end
